(* ===== verification/Go_Prelude.thy ===== *)
theory Go_Prelude
  imports "HOL-Library.AList" "HOL-Library.Sublist"
begin

text \<open>
  What every component of the development shares: the width of Go's \<open>int64\<close> (and of
  \<open>int\<close> and \<open>time.Duration\<close>, which have the same width on the platforms the program is
  built for), Go maps as association lists with distinct keys, and the collections of
  rewrite rules the component proofs use.

  A Go map is a list of key/value pairs without a repeated key; the order of the list is
  one order in which \<^verbatim>\<open>range\<close> may visit the map (Go leaves it unspecified), and every
  theorem is about an arbitrary one. Assignment and \<^verbatim>\<open>delete\<close> are the library's
  \<^const>\<open>AList.update\<close> and \<^const>\<open>AList.delete\<close>.
\<close>

named_theorems gomap "rewriting of Go maps: lookup, key set, distinctness, size"
named_theorems int64 "range and identity of 64-bit wrap-around"

section \<open>64-bit integers\<close>

definition max_int64 :: int where "max_int64 = 9223372036854775807"

definition min_int64 :: int where "min_int64 = - 9223372036854775808"

definition int64_range :: "int \<Rightarrow> bool" where
  "int64_range x \<longleftrightarrow> min_int64 \<le> x \<and> x \<le> max_int64"

text \<open>Two's complement wrap-around of an \<open>int64\<close> operation's exact result.\<close>

definition wrap64 :: "int \<Rightarrow> int" where
  "wrap64 x = (x + 9223372036854775808) mod 18446744073709551616 - 9223372036854775808"

lemma wrap64_range [int64]: "int64_range (wrap64 x)"
proof -
  have "0 \<le> (x + 9223372036854775808) mod 18446744073709551616"
    and "(x + 9223372036854775808) mod 18446744073709551616 < 18446744073709551616"
    by simp_all
  then show ?thesis
    by (simp add: wrap64_def int64_range_def min_int64_def max_int64_def)
qed

lemma wrap64_id [int64]: "int64_range x \<Longrightarrow> wrap64 x = x"
  by (simp add: wrap64_def int64_range_def min_int64_def max_int64_def)

section \<open>Durations\<close>

text \<open>A \<^verbatim>\<open>time.Duration\<close> counts nanoseconds in an \<open>int64\<close>.\<close>

definition second_ns :: int where "second_ns = 1000000000"

text \<open>\<^verbatim>\<open>time.Duration(n) * time.Second\<close>\<close>

definition seconds :: "int \<Rightarrow> int" where
  "seconds n = wrap64 (n * second_ns)"

text \<open>\<^verbatim>\<open>t.Sub(u)\<close> saturates.\<close>

definition time_Sub :: "int \<Rightarrow> int \<Rightarrow> int" where
  "time_Sub t u = max min_int64 (min max_int64 (t - u))"

lemma seconds_range: "int64_range (seconds n)"
  by (simp add: seconds_def int64)

lemma seconds_exact: "0 \<le> n \<Longrightarrow> n \<le> 9223372036 \<Longrightarrow> seconds n = n * second_ns"
  by (simp add: seconds_def second_ns_def int64 int64_range_def min_int64_def max_int64_def)

lemma time_Sub_range: "int64_range (time_Sub t u)"
  by (auto simp: time_Sub_def int64_range_def min_int64_def max_int64_def)

lemma seconds_overflow:
  "9223372036 < n \<Longrightarrow> n \<le> 18446744073 \<Longrightarrow> seconds n < 0"
proof -
  assume n: "9223372036 < n" "n \<le> 18446744073"
  let ?x = "n * 1000000000 + 9223372036854775808"
  have "?x mod 18446744073709551616 = (?x - 18446744073709551616) mod 18446744073709551616"
    by (rule minus_mod_self2 [symmetric])
  also have "\<dots> = ?x - 18446744073709551616" by (rule mod_pos_pos_trivial) (use n in auto)
  finally show "seconds n < 0" using n by (simp add: seconds_def second_ns_def wrap64_def)
qed

section \<open>Go maps\<close>

type_synonym ('k, 'v) gomap = "('k \<times> 'v) list"

definition gomap_ok :: "('k, 'v) gomap \<Rightarrow> bool" where
  "gomap_ok m \<longleftrightarrow> distinct (map fst m)"

lemma gomap_ok_Nil [gomap, simp]: "gomap_ok []"
  by (simp add: gomap_ok_def)

lemma gomap_ok_update [gomap, simp]: "gomap_ok m \<Longrightarrow> gomap_ok (AList.update k v m)"
  by (simp add: gomap_ok_def distinct_update)

lemma gomap_ok_delete [gomap, simp]: "gomap_ok m \<Longrightarrow> gomap_ok (AList.delete k m)"
  by (simp add: gomap_ok_def distinct_delete)

lemma gomap_lookup_update [gomap, simp]:
  "map_of (AList.update k v m) = (map_of m)(k \<mapsto> v)"
  by (rule update_conv')

lemma gomap_lookup_delete [gomap, simp]:
  "map_of (AList.delete k m) = (map_of m)(k := None)"
  by (rule delete_conv')

lemma gomap_dom [gomap]: "dom (map_of m) = fst ` set m"
  by (rule dom_map_of_conv_image_fst)

text \<open>\<^verbatim>\<open>len(m)\<close> is the number of keys.\<close>

lemma gomap_length: "gomap_ok m \<Longrightarrow> length m = card (dom (map_of m))"
  by (metis gomap_dom gomap_ok_def distinct_card length_map list.set_map)

text \<open>With distinct keys, a sum over the values is a sum over the pairs of the lookup.\<close>

lemma sum_list_delete:
  fixes f :: "'v \<Rightarrow> 'a::ab_group_add"
  assumes "gomap_ok m" and "map_of m k = Some v"
  shows "sum_list (map (f \<circ> snd) (AList.delete k m)) = sum_list (map (f \<circ> snd) m) - f v"
  using assms
proof (induction m)
  case Nil
  then show ?case by simp
next
  case (Cons p m)
  obtain k' v' where p: "p = (k', v')" by (cases p)
  show ?case
  proof (cases "k' = k")
    case True
    then have "k \<notin> fst ` set m" using Cons.prems(1) p by (simp add: gomap_ok_def)
    then have "AList.delete k m = m" by simp
    with True Cons.prems(2) p show ?thesis by simp
  next
    case False
    with Cons p show ?thesis by (simp add: gomap_ok_def)
  qed
qed

lemma sum_list_update_fresh:
  fixes f :: "'v \<Rightarrow> 'a::ab_group_add"
  assumes "map_of m k = None"
  shows "sum_list (map (f \<circ> snd) (AList.update k v m)) = sum_list (map (f \<circ> snd) m) + f v"
  using assms by (induction m) (auto simp: algebra_simps split: if_splits)

lemma set_update_subset: "set (AList.update k v m) \<subseteq> insert (k, v) (set m)"
  by (induction m) auto

lemma set_delete_subset: "set (AList.delete k m) \<subseteq> set m"
  by (auto simp: AList.delete_eq)

section \<open>Results\<close>

text \<open>A Go function that returns only an \<^verbatim>\<open>error\<close>: \<open>None\<close> is \<^verbatim>\<open>nil\<close>.\<close>

type_synonym 'e err = "'e option"

text \<open>A chain of \<^verbatim>\<open>if err := f(); err != nil { return err }\<close>: the first error wins.\<close>

fun first_err :: "'e err list \<Rightarrow> 'e err" where
  "first_err [] = None"
| "first_err (e # es) = (case e of None \<Rightarrow> first_err es | Some x \<Rightarrow> Some x)"

lemma first_err_None [simp]: "first_err es = None \<longleftrightarrow> (\<forall>e \<in> set es. e = None)"
  by (induction es) (auto split: option.splits)

lemma first_err_SomeD: "first_err es = Some x \<Longrightarrow> Some x \<in> set es"
  by (induction es) (auto split: option.splits)

text \<open>Whether a chain succeeds is read off \<open>first_err_None\<close>; its equations are unfolded on demand.\<close>

declare first_err.simps [simp del]

end
