(* ===== verification/Go_Strings.thy ===== *)
theory Go_Strings
  imports Go_Prelude "HOL-Library.Char_ord"
begin

text \<open>
  The functions of Go's packages \<^verbatim>\<open>strings\<close>, \<^verbatim>\<open>strconv\<close>, \<^verbatim>\<open>path\<close> and \<^verbatim>\<open>unicode/utf8\<close> that
  the program calls. A Go string is a sequence of bytes, and so is \<^typ>\<open>string\<close>: a \<^typ>\<open>char\<close>
  is one byte and \<^const>\<open>length\<close> is \<^verbatim>\<open>len\<close>.

  Where Go decodes UTF-8 the decoding is written out, with its error value for malformed
  bytes. The Unicode tables themselves are not part of the program: the lower case of a
  code point outside ASCII is the parameter \<open>ul\<close> of \<open>to_lower\<close>.
\<close>

section \<open>Bytes\<close>

abbreviation byte :: "char \<Rightarrow> nat" where "byte c \<equiv> of_char c"

definition is_ascii :: "string \<Rightarrow> bool" where
  "is_ascii s \<longleftrightarrow> list_all (\<lambda>c. byte c < 128) s"

definition lower_byte :: "nat \<Rightarrow> nat" where
  "lower_byte b = (if 65 \<le> b \<and> b \<le> 90 then b + 32 else b)"

definition lower_char :: "char \<Rightarrow> char" where
  "lower_char c = char_of (lower_byte (byte c))"

definition upper_char :: "char \<Rightarrow> char" where
  "upper_char c = (if 97 \<le> byte c \<and> byte c \<le> 122 then char_of (byte c - 32) else c)"

definition is_digit :: "char \<Rightarrow> bool" where
  "is_digit c \<longleftrightarrow> 48 \<le> byte c \<and> byte c \<le> 57"

section \<open>Searching, cutting and splitting\<close>

text \<open>\<^verbatim>\<open>strings.HasPrefix\<close> and \<^verbatim>\<open>strings.HasSuffix\<close>.\<close>

abbreviation HasPrefix :: "string \<Rightarrow> string \<Rightarrow> bool" where "HasPrefix s p \<equiv> prefix p s"
abbreviation HasSuffix :: "string \<Rightarrow> string \<Rightarrow> bool" where "HasSuffix s p \<equiv> suffix p s"

text \<open>\<^verbatim>\<open>strings.IndexByte\<close> and \<^verbatim>\<open>strings.LastIndexByte\<close>; \<open>None\<close> is \<open>-1\<close>.\<close>

fun IndexByte :: "string \<Rightarrow> char \<Rightarrow> nat option" where
  "IndexByte [] c = None"
| "IndexByte (x # xs) c = (if x = c then Some 0 else map_option Suc (IndexByte xs c))"

definition LastIndexByte :: "string \<Rightarrow> char \<Rightarrow> nat option" where
  "LastIndexByte s c = map_option (\<lambda>i. length s - 1 - i) (IndexByte (rev s) c)"

text \<open>\<^verbatim>\<open>strings.Cut\<close> at a one-byte separator.\<close>

fun Cut :: "string \<Rightarrow> char \<Rightarrow> string \<times> string \<times> bool" where
  "Cut [] c = ([], [], False)"
| "Cut (x # xs) c =
     (if x = c then ([], xs, True)
      else (case Cut xs c of (before, after, found) \<Rightarrow> (x # before, after, found)))"

text \<open>\<^verbatim>\<open>strings.Split\<close> with a one-byte separator: never the empty list.\<close>

fun Split :: "string \<Rightarrow> char \<Rightarrow> string list" where
  "Split [] c = [[]]"
| "Split (x # xs) c =
     (if x = c then [] # Split xs c
      else (case Split xs c of [] \<Rightarrow> [[x]] | y # ys \<Rightarrow> (x # y) # ys))"

fun Join :: "string list \<Rightarrow> char \<Rightarrow> string" where
  "Join [] c = []"
| "Join [x] c = x"
| "Join (x # y # ys) c = x @ c # Join (y # ys) c"

lemma IndexByte_None [simp]: "IndexByte s c = None \<longleftrightarrow> c \<notin> set s"
  by (induction s) auto

lemma IndexByte_SomeD:
  "IndexByte s c = Some i \<Longrightarrow> i < length s \<and> s ! i = c \<and> c \<notin> set (take i s)"
  by (induction s arbitrary: i) (auto split: if_splits)

lemma IndexByte_append:
  "c \<notin> set s \<Longrightarrow> IndexByte (s @ c # t) c = Some (length s)"
  by (induction s) auto

lemma LastIndexByte_None [simp]: "LastIndexByte s c = None \<longleftrightarrow> c \<notin> set s"
  by (simp add: LastIndexByte_def)

lemma LastIndexByte_absent: "c \<notin> set s \<Longrightarrow> LastIndexByte s c = None"
  by simp

lemma LastIndexByte_append:
  "c \<notin> set t \<Longrightarrow> LastIndexByte (s @ c # t) c = Some (length s)"
  by (simp add: LastIndexByte_def IndexByte_append)

lemma LastIndexByte_SomeD:
  assumes "LastIndexByte s c = Some i"
  shows "i < length s \<and> s ! i = c \<and> c \<notin> set (drop (Suc i) s)"
proof -
  obtain j where j: "IndexByte (rev s) c = Some j" and i: "i = length s - 1 - j"
    using assms by (auto simp: LastIndexByte_def)
  from IndexByte_SomeD [OF j] have "j < length s" "rev s ! j = c" "c \<notin> set (take j (rev s))"
    by auto
  moreover from this have "length s - j = Suc i" using i by simp
  ultimately show ?thesis using i by (auto simp: rev_nth take_rev)
qed

lemma Cut_found: "Cut s c = (b, a, True) \<Longrightarrow> s = b @ c # a \<and> c \<notin> set b"
  by (induction s arbitrary: b a) (auto split: if_splits prod.splits)

lemma Cut_not_found: "Cut s c = (b, a, False) \<Longrightarrow> b = s \<and> a = [] \<and> c \<notin> set s"
  by (induction s arbitrary: b a) (auto split: if_splits prod.splits)

lemma Split_not_Nil [simp]: "Split s c \<noteq> []"
  by (cases s) (auto split: list.splits)

lemma Split_no_sep: "x \<in> set (Split s c) \<Longrightarrow> c \<notin> set x"
  by (induction s arbitrary: x) (auto split: if_splits list.splits)

lemma Join_Cons: "xs \<noteq> [] \<Longrightarrow> Join (x # xs) c = x @ c # Join xs c"
  by (cases xs) auto

text \<open>\<^verbatim>\<open>Split\<close> loses nothing: joining its result with the separator gives the string back.\<close>

lemma Join_Split: "Join (Split s c) c = s"
proof (induction s)
  case Nil
  then show ?case by simp
next
  case (Cons x xs)
  show ?case
  proof (cases "Split xs c")
    case Nil
    then show ?thesis by simp
  next
    case split: (Cons y ys)
    with Cons.IH show ?thesis by (cases ys) (auto simp: Join_Cons)
  qed
qed

lemma Split_no_sep_single: "c \<notin> set s \<Longrightarrow> Split s c = [s]"
  by (induction s) auto

lemma Split_append: "c \<notin> set s \<Longrightarrow> Split (s @ c # t) c = s # Split t c"
  by (induction s) auto

section \<open>UTF-8\<close>

definition RuneError :: nat where "RuneError = 65533"

text \<open>
  The lead bytes of \<^verbatim>\<open>unicode/utf8\<close>: how many bytes follow and the range allowed for the second
  byte (which excludes overlong forms, surrogates and code points above 10FFFF hex).
\<close>

definition utf8_lead :: "nat \<Rightarrow> (nat \<times> nat \<times> nat) option" where
  "utf8_lead b =
     (if 194 \<le> b \<and> b \<le> 223 then Some (1, 128, 191)
      else if b = 224 then Some (2, 160, 191)
      else if b = 237 then Some (2, 128, 159)
      else if 225 \<le> b \<and> b \<le> 239 then Some (2, 128, 191)
      else if b = 240 then Some (3, 144, 191)
      else if 241 \<le> b \<and> b \<le> 243 then Some (3, 128, 191)
      else if b = 244 then Some (3, 128, 143)
      else None)"

definition is_cont :: "nat \<Rightarrow> bool" where
  "is_cont b \<longleftrightarrow> 128 \<le> b \<and> b \<le> 191"

text \<open>
  \<^verbatim>\<open>utf8.DecodeRuneInString\<close> on a string with first byte \<open>c\<close> and the bytes \<open>cs\<close> after it:
  the code point, and how many bytes of \<open>cs\<close> belong to it (Go's width less one). A malformed
  sequence is \<^const>\<open>RuneError\<close> of width one.
\<close>

definition decode_rune :: "char \<Rightarrow> string \<Rightarrow> nat \<times> nat" where
  "decode_rune c cs =
     (let b = byte c in
      if b < 128 then (b, 0)
      else case utf8_lead b of
        None \<Rightarrow> (RuneError, 0)
      | Some (n, lo, hi) \<Rightarrow>
          (case map byte (take n cs) of
             [b1] \<Rightarrow>
               if n = 1 \<and> lo \<le> b1 \<and> b1 \<le> hi
               then ((b - 192) * 64 + (b1 - 128), 1) else (RuneError, 0)
           | [b1, b2] \<Rightarrow>
               if n = 2 \<and> lo \<le> b1 \<and> b1 \<le> hi \<and> is_cont b2
               then ((b - 224) * 4096 + (b1 - 128) * 64 + (b2 - 128), 2) else (RuneError, 0)
           | [b1, b2, b3] \<Rightarrow>
               if n = 3 \<and> lo \<le> b1 \<and> b1 \<le> hi \<and> is_cont b2 \<and> is_cont b3
               then ((b - 240) * 262144 + (b1 - 128) * 4096 + (b2 - 128) * 64 + (b3 - 128), 3)
               else (RuneError, 0)
           | _ \<Rightarrow> (RuneError, 0)))"

text \<open>\<^verbatim>\<open>[]rune(s)\<close>: the code points a \<^verbatim>\<open>range\<close> over the string yields.\<close>

function runes :: "string \<Rightarrow> nat list" where
  "runes [] = []"
| "runes (c # cs) = (case decode_rune c cs of (r, n) \<Rightarrow> r # runes (drop n cs))"
  by pat_completeness auto
termination
  by (relation "measure length") auto

text \<open>\<^verbatim>\<open>utf8.EncodeRune\<close>.\<close>

definition encode_rune :: "nat \<Rightarrow> string" where
  "encode_rune r =
     map char_of
       (if r < 128 then [r]
        else if r < 2048 then [192 + r div 64, 128 + r mod 64]
        else if r > 1114111 \<or> (55296 \<le> r \<and> r \<le> 57343) then [239, 191, 189]
        else if r < 65536 then [224 + r div 4096, 128 + r div 64 mod 64, 128 + r mod 64]
        else [240 + r div 262144, 128 + r div 4096 mod 64, 128 + r div 64 mod 64, 128 + r mod 64])"

lemma runes_ascii: "is_ascii s \<Longrightarrow> runes s = map byte s"
  by (induction s) (auto simp: is_ascii_def decode_rune_def Let_def)

lemma length_runes: "length (runes s) \<le> length s"
proof (induction s rule: runes.induct)
  case 1
  then show ?case by simp
next
  case (2 c cs)
  obtain r n where rn: "decode_rune c cs = (r, n)" by fastforce
  from "2.IH" [OF rn [symmetric]] have "length (runes (drop n cs)) \<le> length (drop n cs)" .
  then have "length (runes (drop n cs)) \<le> length cs" by simp
  with rn show ?case by simp
qed

section \<open>Case\<close>

text \<open>
  \<^verbatim>\<open>strings.ToLower\<close>. The ASCII path maps bytes; otherwise the code points are mapped by
  \<^verbatim>\<open>unicode.ToLower\<close>, which is the table \<open>ul\<close> outside ASCII, and encoded again.
\<close>

definition rune_lower :: "(nat \<Rightarrow> nat) \<Rightarrow> nat \<Rightarrow> nat" where
  "rune_lower ul r = (if r < 128 then lower_byte r else ul r)"

definition to_lower :: "(nat \<Rightarrow> nat) \<Rightarrow> string \<Rightarrow> string" where
  "to_lower ul s =
     (if is_ascii s then map lower_char s
      else concat (map (\<lambda>r. encode_rune (rune_lower ul r)) (runes s)))"

text \<open>
  \<^verbatim>\<open>strings.EqualFold s t\<close> for an ASCII \<open>t\<close>, the only use in the program. Two code points
  outside ASCII fold to an ASCII letter: U+017F (to s) and U+212A (to k).
\<close>

definition fold_eq_ascii :: "nat \<Rightarrow> nat \<Rightarrow> bool" where
  "fold_eq_ascii r b \<longleftrightarrow>
     (if r < 128 then lower_byte r = lower_byte b
      else (r = 383 \<and> lower_byte b = 115) \<or> (r = 8490 \<and> lower_byte b = 107))"

definition EqualFold :: "string \<Rightarrow> string \<Rightarrow> bool" where
  "EqualFold s t \<longleftrightarrow> list_all2 fold_eq_ascii (runes s) (map byte t)"

lemma byte_lower_char [simp]: "byte c < 128 \<Longrightarrow> byte (lower_char c) = lower_byte (byte c)"
  by (auto simp: lower_char_def lower_byte_def)

lemma lower_char_idem [simp]: "byte c < 128 \<Longrightarrow> lower_char (lower_char c) = lower_char c"
  by (auto simp: lower_char_def lower_byte_def)

lemma is_ascii_lower [simp]: "is_ascii s \<Longrightarrow> is_ascii (map lower_char s)"
  by (auto simp: is_ascii_def list_all_iff lower_byte_def)

lemma to_lower_ascii: "is_ascii s \<Longrightarrow> to_lower ul s = map lower_char s"
  by (simp add: to_lower_def)

lemma map_lower_char_idem: "is_ascii s \<Longrightarrow> map lower_char (map lower_char s) = map lower_char s"
  by (auto simp: is_ascii_def list_all_iff)

lemma to_lower_ascii_idem: "is_ascii s \<Longrightarrow> to_lower ul (to_lower ul s) = to_lower ul s"
  by (simp only: to_lower_ascii is_ascii_lower map_lower_char_idem)

lemma lower_char_eq_iff:
  "byte a < 128 \<Longrightarrow> byte b < 128 \<Longrightarrow>
   lower_byte (byte a) = lower_byte (byte b) \<longleftrightarrow> lower_char a = lower_char b"
  by (metis byte_lower_char of_char_eq_iff)

lemma EqualFold_ascii:
  "is_ascii s \<Longrightarrow> is_ascii t \<Longrightarrow> EqualFold s t \<longleftrightarrow> map lower_char s = map lower_char t"
proof (induction s arbitrary: t)
  case Nil
  then show ?case by (cases t) (auto simp: EqualFold_def)
next
  case (Cons a s)
  then show ?case
    by (cases t)
      (auto simp: EqualFold_def runes_ascii is_ascii_def fold_eq_ascii_def
        decode_rune_def Let_def lower_char_eq_iff)
qed

section \<open>White space\<close>

text \<open>
  The encodings of the code points for which \<^verbatim>\<open>unicode.IsSpace\<close> holds. Each is recognised by
  \<^verbatim>\<open>DecodeRune\<close> exactly where its bytes stand at the front of the string, and by
  \<^verbatim>\<open>DecodeLastRune\<close> exactly where they stand at its end.
\<close>

definition space_encodings :: "string list" where
  "space_encodings =
     [[CHR 0x09], [CHR 0x0A], [CHR 0x0B], [CHR 0x0C], [CHR 0x0D], [CHR '' ''],
      [CHR 0xC2, CHR 0x85], [CHR 0xC2, CHR 0xA0], [CHR 0xE1, CHR 0x9A, CHR 0x80],
      [CHR 0xE2, CHR 0x80, CHR 0xA8], [CHR 0xE2, CHR 0x80, CHR 0xA9], [CHR 0xE2, CHR 0x80, CHR 0xAF],
      [CHR 0xE2, CHR 0x81, CHR 0x9F], [CHR 0xE3, CHR 0x80, CHR 0x80],
      [CHR 0xE2, CHR 0x80, CHR 0x80], [CHR 0xE2, CHR 0x80, CHR 0x81], [CHR 0xE2, CHR 0x80, CHR 0x82],
      [CHR 0xE2, CHR 0x80, CHR 0x83], [CHR 0xE2, CHR 0x80, CHR 0x84], [CHR 0xE2, CHR 0x80, CHR 0x85],
      [CHR 0xE2, CHR 0x80, CHR 0x86], [CHR 0xE2, CHR 0x80, CHR 0x87], [CHR 0xE2, CHR 0x80, CHR 0x88],
      [CHR 0xE2, CHR 0x80, CHR 0x89], [CHR 0xE2, CHR 0x80, CHR 0x8A]]"

text \<open>Strip elements of \<open>encs\<close> from the front as long as one stands there.\<close>

function strip :: "string list \<Rightarrow> string \<Rightarrow> string" where
  "strip encs [] = []"
| "strip encs (c # cs) =
     (case find (\<lambda>e. prefix e (c # cs)) encs of
        None \<Rightarrow> c # cs
      | Some e \<Rightarrow> strip encs (drop (length e - 1) cs))"
  by pat_completeness auto
termination
  by (relation "measure (\<lambda>(encs, s). length s)") auto

definition TrimSpace :: "string \<Rightarrow> string" where
  "TrimSpace s = rev (strip (map rev space_encodings) (rev (strip space_encodings s)))"

text \<open>\<^verbatim>\<open>strings.TrimRight\<close> with a one-byte cut set.\<close>

definition TrimRight :: "string \<Rightarrow> char \<Rightarrow> string" where
  "TrimRight s c = rev (dropWhile (\<lambda>x. x = c) (rev s))"

lemma suffix_strip: "suffix (strip encs s) s"
proof (induction encs s rule: strip.induct)
  case (1 encs)
  then show ?case by simp
next
  case (2 encs c cs)
  show ?case
  proof (cases "find (\<lambda>e. prefix e (c # cs)) encs")
    case None
    then show ?thesis by simp
  next
    case (Some e)
    from "2.IH" [OF Some] have "suffix (strip encs (drop (length e - 1) cs)) (drop (length e - 1) cs)" .
    also have "suffix (drop (length e - 1) cs) (c # cs)"
      by (metis suffix_drop suffix_ConsI)
    finally show ?thesis using Some by simp
  qed
qed

lemma TrimSpace_sublist: "sublist (TrimSpace s) s"
proof -
  let ?l = "strip space_encodings s"
  have "suffix (strip (map rev space_encodings) (rev ?l)) (rev ?l)" by (rule suffix_strip)
  then have "prefix (TrimSpace s) ?l"
    by (simp add: TrimSpace_def suffix_to_prefix)
  moreover have "suffix ?l s" by (rule suffix_strip)
  ultimately show ?thesis
    by (meson prefix_imp_sublist sublist_order.order_trans suffix_imp_sublist)
qed

lemma TrimSpace_Nil [simp]: "TrimSpace [] = []"
  by (simp add: TrimSpace_def)

definition spaces :: "nat \<Rightarrow> string" where
  "spaces n = replicate n (CHR '' '')"

definition visible :: "char \<Rightarrow> bool" where
  "visible c \<longleftrightarrow> 33 \<le> byte c \<and> byte c < 127"

lemma visible_not_space:
  assumes "visible c" "e \<in> set space_encodings" shows "c \<notin> set e"
proof -
  have "list_all (list_all (\<lambda>c. \<not> (33 \<le> byte c \<and> byte c < 127))) space_encodings"
    by (simp add: space_encodings_def)
  with assms show ?thesis
    unfolding visible_def list_all_iff by blast
qed

lemma strip_spaces:
  "strip space_encodings (spaces n @ s) = strip space_encodings s"
  "strip (map rev space_encodings) (spaces n @ s) = strip (map rev space_encodings) s"
  by (induction n) (simp_all add: spaces_def space_encodings_def)

text \<open>Stripping stops at a byte that occurs in none of the encodings, at the latest.\<close>

lemma strip_stops:
  assumes "\<forall>e \<in> set encs. b \<notin> set e" "[] \<notin> set encs"
  shows "\<exists>a'. suffix a' a \<and> strip encs (a @ b # c) = a' @ b # c"
proof (induction "length a" arbitrary: a rule: less_induct)
  case less
  show ?case
  proof (cases "find (\<lambda>e. prefix e (a @ b # c)) encs")
    case None
    then have "strip encs (a @ b # c) = a @ b # c" by (cases a) auto
    then show ?thesis by auto
  next
    case (Some e)
    then have e: "e \<in> set encs" "prefix e (a @ b # c)" by (auto simp: find_Some_iff)
    then have "b \<notin> set e" using assms by simp
    with e(2) have pa: "prefix e a"
      by (auto simp: prefix_append prefix_Cons)
    show ?thesis
    proof (cases a)
      case Nil
      with pa e(1) assms(2) show ?thesis by simp
    next
      case (Cons x xs)
      let ?r = "drop (length e - 1) xs"
      have l: "length e - 1 \<le> length xs" using pa Cons by (auto dest: prefix_length_le)
      have "strip encs (a @ b # c) = strip encs (?r @ b # c)" using Some Cons l by simp
      moreover obtain a' where "suffix a' ?r" "strip encs (?r @ b # c) = a' @ b # c"
        using less [of ?r] Cons by (metis diff_le_self le_imp_less_Suc length_Cons length_drop)
      moreover have "suffix ?r a" using Cons by (metis suffix_drop suffix_Cons)
      ultimately show ?thesis by (metis suffix_order.trans)
    qed
  qed
qed

lemma strip_visible: "visible b \<Longrightarrow> strip space_encodings (b # c) = b # c"
  using strip_stops [of space_encodings b "[]" c] visible_not_space
  by (auto simp: space_encodings_def)

lemma TrimSpace_visible:
  assumes "visible b" "visible l" "w = u @ [l]" "hd w = b"
  shows "TrimSpace (spaces i @ w @ spaces j) = w"
    and "\<exists>y. TrimSpace (spaces i @ w @ x) = w @ y"
proof -
  let ?R = "map rev space_encodings"
  have nR: "\<forall>e \<in> set ?R. l \<notin> set e" using assms(2) visible_not_space by auto
  have eR: "[] \<notin> set ?R" by (simp add: space_encodings_def)
  obtain t where w: "w = b # t" using assms(3,4) by (metis append_is_Nil_conv list.collapse not_Cons_self2)
  have front: "strip space_encodings (spaces i @ w @ z) = w @ z" for z
    using strip_visible [OF assms(1)] w by (simp add: strip_spaces)
  have rs: "rev (spaces j) = spaces j" by (simp add: spaces_def)
  show "TrimSpace (spaces i @ w @ spaces j) = w"
  proof -
    have "strip ?R (l # rev u) = l # rev u" using strip_stops [OF nR eR, of "[]" "rev u"] by auto
    then have "strip ?R (rev w) = rev w" using assms(3) by simp
    then show ?thesis unfolding TrimSpace_def front by (simp add: rs strip_spaces del: strip.simps)
  qed
  obtain a' where "strip ?R (rev x @ l # rev u) = a' @ l # rev u"
    using strip_stops [OF nR eR] by blast
  then have "strip ?R (rev (w @ x)) = a' @ rev w" using assms(3) by simp
  then have "TrimSpace (spaces i @ w @ x) = w @ rev a'"
    unfolding TrimSpace_def front by simp
  then show "\<exists>y. TrimSpace (spaces i @ w @ x) = w @ y" by blast
qed

lemma TrimRight_not_suffix: "TrimRight s c = [] \<or> last (TrimRight s c) \<noteq> c"
proof -
  have "dropWhile (\<lambda>x. x = c) (rev s) = [] \<or> hd (dropWhile (\<lambda>x. x = c) (rev s)) \<noteq> c"
    by (metis (mono_tags, lifting) hd_dropWhile)
  then show ?thesis
    by (auto simp: TrimRight_def last_rev)
qed

section \<open>Numbers\<close>

text \<open>\<^verbatim>\<open>strconv.Atoi\<close>: an optional sign, then decimal digits, within the range of \<open>int\<close>.\<close>

definition digits_val :: "string \<Rightarrow> int" where
  "digits_val ds = foldl (\<lambda>n d. n * 10 + (int (byte d) - 48)) 0 ds"

definition Atoi :: "string \<Rightarrow> int option" where
  "Atoi s =
     (let (neg, ds) =
        (case s of
           [] \<Rightarrow> (False, [])
         | c # cs \<Rightarrow> if c = CHR ''-'' then (True, cs)
                     else if c = CHR ''+'' then (False, cs) else (False, s))
      in if ds = [] \<or> \<not> list_all is_digit ds then None
         else let v = (if neg then - digits_val ds else digits_val ds)
              in if int64_range v then Some v else None)"

lemma Atoi_range: "Atoi s = Some n \<Longrightarrow> int64_range n"
  by (auto simp: Atoi_def Let_def split: list.splits if_splits prod.splits)

text \<open>\<^verbatim>\<open>%d\<close>.\<close>

function nat_digits :: "nat \<Rightarrow> string" where
  "nat_digits n =
     (if n < 10 then [char_of (48 + n)] else nat_digits (n div 10) @ [char_of (48 + n mod 10)])"
  by pat_completeness auto
termination
  by (relation "measure id") auto

declare nat_digits.simps [simp del]

definition Itoa :: "int \<Rightarrow> string" where
  "Itoa i = (if i < 0 then CHR ''-'' # nat_digits (nat (- i)) else nat_digits (nat i))"

lemma digits_val_snoc [simp]:
  "digits_val (ds @ [d]) = digits_val ds * 10 + (int (byte d) - 48)"
  by (simp add: digits_val_def)

lemma nat_digits_val: "digits_val (nat_digits n) = int n"
proof (induction n rule: nat_digits.induct)
  case (1 n)
  show ?case
  proof (cases "n < 10")
    case True
    then show ?thesis
      by (subst nat_digits.simps) (simp add: digits_val_def)
  next
    case False
    have "byte (char_of (48 + n mod 10)) = 48 + n mod 10" by simp
    with False "1.IH" show ?thesis
      by (subst nat_digits.simps) (simp add: zdiv_int zmod_int)
  qed
qed

lemma nat_digits_digits: "list_all is_digit (nat_digits n)"
proof (induction n rule: nat_digits.induct)
  case (1 n)
  have "is_digit (char_of (48 + n mod 10))" by (auto simp: is_digit_def)
  moreover have "n < 10 \<Longrightarrow> is_digit (char_of (48 + n))" by (auto simp: is_digit_def)
  ultimately show ?case
    using "1.IH" by (subst nat_digits.simps) simp
qed

lemma nat_digits_not_Nil [simp]: "nat_digits n \<noteq> []"
  by (subst nat_digits.simps) simp

lemma nat_digits_set: "c \<in> set (nat_digits n) \<Longrightarrow> is_digit c"
  using nat_digits_digits by (auto simp: list_all_iff)

lemma Itoa_chars: "c \<in> set (Itoa i) \<Longrightarrow> is_digit c \<or> c = CHR ''-''"
  by (auto simp: Itoa_def nat_digits_set split: if_splits)

text \<open>Printing and reading an \<open>int\<close> is the identity.\<close>

lemma Atoi_nat_digits: "int64_range (int k) \<Longrightarrow> Atoi (nat_digits k) = Some (int k)"
proof -
  assume r: "int64_range (int k)"
  obtain c cs where nd: "nat_digits k = c # cs" by (cases "nat_digits k") auto
  then have "is_digit c" using nat_digits_set [of c k] by simp
  then have "c \<noteq> CHR ''-''" "c \<noteq> CHR ''+''" by (auto simp: is_digit_def)
  moreover have "list_all is_digit (c # cs)" "digits_val (c # cs) = int k"
    using nat_digits_digits [of k] nat_digits_val [of k] nd by simp_all
  ultimately show ?thesis using r nd by (simp add: Atoi_def Let_def)
qed

lemma Atoi_Itoa:
  assumes "int64_range i" shows "Atoi (Itoa i) = Some i"
proof (cases "i < 0")
  case True
  with assms show ?thesis
    by (simp add: Itoa_def Atoi_def Let_def nat_digits_digits nat_digits_val)
next
  case False
  with assms show ?thesis
    using Atoi_nat_digits [of "nat i"] by (simp add: Itoa_def)
qed

section \<open>Paths\<close>

text \<open>\<^verbatim>\<open>path.Ext\<close>: from the last dot of the last slash-separated element; empty without a dot.\<close>

fun ext_rev :: "string \<Rightarrow> string \<Rightarrow> string" where
  "ext_rev [] acc = []"
| "ext_rev (c # cs) acc =
     (if c = CHR ''/'' then []
      else if c = CHR ''.'' then c # acc
      else ext_rev cs (c # acc))"

definition path_Ext :: "string \<Rightarrow> string" where
  "path_Ext p = ext_rev (rev p) []"

end
