(* ===== verification/Go_Net.thy ===== *)
theory Go_Net
  imports Go_Strings
begin

text \<open>
  The parts of Go's packages \<^verbatim>\<open>net/http\<close> (header maps, request construction), \<^verbatim>\<open>net\<close>
  (\<^verbatim>\<open>SplitHostPort\<close>) and \<^verbatim>\<open>net/url\<close> (\<^verbatim>\<open>Parse\<close>, \<^verbatim>\<open>Hostname\<close>, \<^verbatim>\<open>Port\<close>) that the program's decisions
  rest on, following the standard library of Go 1.25.0, the version \<^verbatim>\<open>go.mod\<close> names.
\<close>

section \<open>HTTP headers\<close>

type_synonym header = "(string, string list) gomap"

definition is_letter :: "char \<Rightarrow> bool" where
  "is_letter c \<longleftrightarrow> (65 \<le> byte c \<and> byte c \<le> 90) \<or> (97 \<le> byte c \<and> byte c \<le> 122)"

text \<open>The bytes of a token (RFC 7230): those a header name or a method consists of.\<close>

definition is_token_char :: "char \<Rightarrow> bool" where
  "is_token_char c \<longleftrightarrow> is_letter c \<or> is_digit c \<or> c \<in> set ''!#$%&*+-.^_`|~'' \<or> byte c = 39"

text \<open>
  \<^verbatim>\<open>http.CanonicalHeaderKey\<close>: upper case at the start and after a dash, lower case elsewhere;
  a name with a byte that is not a token byte is left as it is.
\<close>

fun canon :: "bool \<Rightarrow> string \<Rightarrow> string" where
  "canon up [] = []"
| "canon up (c # cs) =
     (let c' = (if up then upper_char c else lower_char c) in c' # canon (c' = CHR ''-'') cs)"

definition canonical_key :: "string \<Rightarrow> string" where
  "canonical_key k = (if list_all is_token_char k then canon True k else k)"

definition Header_Get :: "header \<Rightarrow> string \<Rightarrow> string" where
  "Header_Get h k =
     (case map_of h (canonical_key k) of None \<Rightarrow> '''' | Some [] \<Rightarrow> '''' | Some (v # vs) \<Rightarrow> v)"

definition Header_Values :: "header \<Rightarrow> string \<Rightarrow> string list" where
  "Header_Values h k = (case map_of h (canonical_key k) of None \<Rightarrow> [] | Some vs \<Rightarrow> vs)"

definition Header_Add :: "string \<Rightarrow> string \<Rightarrow> header \<Rightarrow> header" where
  "Header_Add k v h = AList.update (canonical_key k) (Header_Values h k @ [v]) h"

definition Header_Set :: "string \<Rightarrow> string \<Rightarrow> header \<Rightarrow> header" where
  "Header_Set k v h = AList.update (canonical_key k) [v] h"

definition Header_Del :: "string \<Rightarrow> header \<Rightarrow> header" where
  "Header_Del k h = AList.delete (canonical_key k) h"

lemma token_upper [simp]: "is_token_char c \<Longrightarrow> is_token_char (upper_char c)"
  by (auto simp: is_token_char_def upper_char_def is_letter_def)

lemma token_lower [simp]: "is_token_char c \<Longrightarrow> is_token_char (lower_char c)"
  by (auto simp: is_token_char_def lower_char_def lower_byte_def is_letter_def)

lemma token_canon: "list_all is_token_char k \<Longrightarrow> list_all is_token_char (canon up k)"
  by (induction up k rule: canon.induct) (auto simp: Let_def)

lemma upper_char_idem [simp]: "upper_char (upper_char c) = upper_char c"
  by (auto simp: upper_char_def)

lemma lower_char_twice [simp]: "lower_char (lower_char c) = lower_char c"
  by (auto simp: lower_char_def lower_byte_def)

lemma canon_idem: "canon up (canon up k) = canon up k"
  by (induction up k rule: canon.induct) (auto simp: Let_def)

lemma canonical_key_idem [simp]: "canonical_key (canonical_key k) = canonical_key k"
  by (simp add: canonical_key_def token_canon canon_idem)

lemma Header_Get_Values:
  "Header_Get h k = (case Header_Values h k of [] \<Rightarrow> '''' | v # vs \<Rightarrow> v)"
  by (simp add: Header_Get_def Header_Values_def split: option.splits list.splits)

lemma Header_Values_canonical [simp]: "Header_Values h (canonical_key k) = Header_Values h k"
  by (simp add: Header_Values_def)

lemma Header_Values_Del:
  "Header_Values (Header_Del k h) k' =
     (if canonical_key k' = canonical_key k then [] else Header_Values h k')"
  by (simp add: Header_Values_def Header_Del_def)

lemma Header_Values_Set:
  "Header_Values (Header_Set k v h) k' =
     (if canonical_key k' = canonical_key k then [v] else Header_Values h k')"
  by (simp add: Header_Values_def Header_Set_def)

lemma Header_Values_Add:
  "Header_Values (Header_Add k v h) k' =
     (if canonical_key k' = canonical_key k then Header_Values h k @ [v] else Header_Values h k')"
  by (simp add: Header_Values_def Header_Add_def)

lemmas header_values = Header_Values_Del Header_Values_Set Header_Values_Add

lemma Header_ok [simp]:
  "gomap_ok h \<Longrightarrow> gomap_ok (Header_Add k v h)"
  "gomap_ok h \<Longrightarrow> gomap_ok (Header_Set k v h)"
  "gomap_ok h \<Longrightarrow> gomap_ok (Header_Del k h)"
  by (simp_all add: Header_Add_def Header_Set_def Header_Del_def)

text \<open>
  The loop \<^verbatim>\<open>for k, vals := range src { for _, v := range vals { dst.Add(k, v) } }\<close>, which the
  proxy and the exit node use to copy headers.
\<close>

definition add_all :: "header \<Rightarrow> header \<Rightarrow> header" where
  "add_all src dst = fold (\<lambda>(k, vs) d. fold (\<lambda>v. Header_Add k v) vs d) src dst"

lemma add_all_Nil [simp]: "add_all [] d = d"
  by (simp add: add_all_def)

lemma add_all_Cons: "add_all ((k, vs) # src) d = add_all src (fold (Header_Add k) vs d)"
  by (simp add: add_all_def)

lemma Header_Values_fold_Add:
  "Header_Values (fold (Header_Add k) vs d) k' =
     (if canonical_key k' = canonical_key k then Header_Values d k' @ vs else Header_Values d k')"
proof (induction vs arbitrary: d)
  case Nil
  then show ?case by simp
next
  case (Cons v vs)
  have "canonical_key k' = canonical_key k \<Longrightarrow> Header_Values d k' = Header_Values d k"
    by (simp add: Header_Values_def)
  with Cons show ?case by (simp add: header_values)
qed

lemma Header_Values_add_all:
  "Header_Values (add_all src d) k' =
     Header_Values d k' @
     concat (map snd (filter (\<lambda>(k, vs). canonical_key k = canonical_key k') src))"
proof (induction src arbitrary: d)
  case Nil
  then show ?case by simp
next
  case (Cons p src)
  then show ?case
    by (cases p) (auto simp: add_all_Cons Header_Values_fold_Add)
qed

lemma gomap_ok_fold_Add: "gomap_ok d \<Longrightarrow> gomap_ok (fold (Header_Add k) vs d)"
  by (induction vs arbitrary: d) auto

lemma gomap_ok_add_all: "gomap_ok d \<Longrightarrow> gomap_ok (add_all src d)"
  by (induction src arbitrary: d) (auto simp: add_all_Cons gomap_ok_fold_Add)

section \<open>net.SplitHostPort\<close>

definition SplitHostPort :: "string \<Rightarrow> (string \<times> string) option" where
  "SplitHostPort hp =
     (case LastIndexByte hp (CHR '':'') of
        None \<Rightarrow> None
      | Some i \<Rightarrow>
          (let check = (\<lambda>host j k.
             if CHR ''['' \<in> set (drop j hp) \<or> CHR '']'' \<in> set (drop k hp) then None
             else Some (host, drop (Suc i) hp))
           in if hp \<noteq> [] \<and> hd hp = CHR ''['' then
                (case IndexByte hp (CHR '']'') of
                   None \<Rightarrow> None
                 | Some e \<Rightarrow>
                     if Suc e = i then check (drop 1 (take e hp)) 1 (Suc e) else None)
              else if CHR '':'' \<in> set (take i hp) then None
              else check (take i hp) 0 0))"

lemma SplitHostPort_plain:
  assumes "CHR '':'' \<notin> set h" "CHR ''['' \<notin> set h" "CHR '']'' \<notin> set h"
    and "CHR '':'' \<notin> set p" "CHR ''['' \<notin> set p" "CHR '']'' \<notin> set p"
  shows "SplitHostPort (h @ CHR '':'' # p) = Some (h, p)"
proof -
  have "hd (h @ CHR '':'' # p) \<noteq> CHR ''[''" using assms by (cases h) auto
  then show ?thesis
    using assms by (simp add: SplitHostPort_def LastIndexByte_append Let_def)
qed

lemma SplitHostPort_colons:
  assumes "CHR '':'' \<in> set h" "h \<noteq> []" "hd h \<noteq> CHR ''[''" "CHR '':'' \<notin> set p"
  shows "SplitHostPort (h @ CHR '':'' # p) = None"
  using assms by (simp add: SplitHostPort_def LastIndexByte_append Let_def)

section \<open>net/url\<close>

text \<open>The fields of \<^verbatim>\<open>url.URL\<close> that the program reads.\<close>

record url =
  url_Scheme :: string
  url_Host :: string

datatype encoding = EncPath | EncFragment | EncHost | EncZone | EncUserPassword

definition is_hex :: "char \<Rightarrow> bool" where
  "is_hex c \<longleftrightarrow> is_digit c \<or> (97 \<le> byte c \<and> byte c \<le> 102) \<or> (65 \<le> byte c \<and> byte c \<le> 70)"

definition unhex :: "char \<Rightarrow> nat" where
  "unhex c =
     (if is_digit c then byte c - 48
      else if 97 \<le> byte c \<and> byte c \<le> 102 then byte c - 87
      else byte c - 55)"

text \<open>\<^verbatim>\<open>shouldEscape\<close> for the modes \<^verbatim>\<open>encodeHost\<close> and \<^verbatim>\<open>encodeZone\<close>.\<close>

definition should_escape_host :: "char \<Rightarrow> bool" where
  "should_escape_host c \<longleftrightarrow>
     \<not> (is_letter c \<or> is_digit c \<or> c \<in> set ''!$&()*+,;=:[]<>-_.~'' \<or> byte c = 34 \<or> byte c = 39)"

fun unescape :: "encoding \<Rightarrow> string \<Rightarrow> string option" where
  "unescape m [] = Some []"
| "unescape m (c # cs) =
     (if c = CHR ''%'' then
        (case cs of
           h1 # h2 # rest \<Rightarrow>
             if \<not> is_hex h1 \<or> \<not> is_hex h2 then None
             else
               let v = char_of (unhex h1 * 16 + unhex h2); esc25 = (h1 = CHR ''2'' \<and> h2 = CHR ''5'')
               in if m = EncHost \<and> unhex h1 < 8 \<and> \<not> esc25 then None
                  else if m = EncZone \<and> \<not> esc25 \<and> v \<noteq> CHR '' '' \<and> should_escape_host v then None
                  else map_option (Cons v) (unescape m rest)
         | _ \<Rightarrow> None)
      else if (m = EncHost \<or> m = EncZone) \<and> c \<noteq> CHR ''+'' \<and> byte c < 128 \<and> should_escape_host c
      then None
      else map_option (Cons c) (unescape m cs))"

fun getScheme_from :: "string \<Rightarrow> string \<Rightarrow> string \<Rightarrow> (string \<times> string) option" where
  "getScheme_from raw acc [] = Some ([], raw)"
| "getScheme_from raw acc (c # cs) =
     (if is_letter c then getScheme_from raw (acc @ [c]) cs
      else if is_digit c \<or> c \<in> set ''+-.'' then
        (if acc = [] then Some ([], raw) else getScheme_from raw (acc @ [c]) cs)
      else if c = CHR '':'' then (if acc = [] then None else Some (acc, cs))
      else Some ([], raw))"

text \<open>\<^verbatim>\<open>getScheme\<close>: \<open>None\<close> is the error \<^verbatim>\<open>missing protocol scheme\<close>.\<close>

definition getScheme :: "string \<Rightarrow> (string \<times> string) option" where
  "getScheme raw = getScheme_from raw [] raw"

definition validOptionalPort :: "string \<Rightarrow> bool" where
  "validOptionalPort p = (case p of [] \<Rightarrow> True | c # cs \<Rightarrow> c = CHR '':'' \<and> list_all is_digit cs)"

definition validUserinfo :: "string \<Rightarrow> bool" where
  "validUserinfo s \<longleftrightarrow>
     list_all (\<lambda>c. is_letter c \<or> is_digit c \<or> c \<in> set ''-._:~!$&()*+,;=%@'' \<or> byte c = 39) s"

text \<open>The index of the first occurrence of \<open>%25\<close>.\<close>

fun index_percent25 :: "string \<Rightarrow> nat option" where
  "index_percent25 [] = None"
| "index_percent25 (c # cs) =
     (if prefix ''%25'' (c # cs) then Some 0 else map_option Suc (index_percent25 cs))"

definition parseHost :: "string \<Rightarrow> string option" where
  "parseHost host =
     (if prefix ''['' host then
        (case LastIndexByte host (CHR '']'') of
           None \<Rightarrow> None
         | Some i \<Rightarrow>
             if \<not> validOptionalPort (drop (Suc i) host) then None
             else case index_percent25 (take i host) of
               Some z \<Rightarrow>
                 (case (unescape EncHost (take z host),
                        unescape EncZone (drop z (take i host)),
                        unescape EncHost (drop i host)) of
                    (Some h1, Some h2, Some h3) \<Rightarrow> Some (h1 @ h2 @ h3)
                  | _ \<Rightarrow> None)
             | None \<Rightarrow> unescape EncHost host)
      else
        (case LastIndexByte host (CHR '':'') of
           Some i \<Rightarrow>
             if \<not> validOptionalPort (drop i host) then None else unescape EncHost host
         | None \<Rightarrow> unescape EncHost host))"

definition parseAuthority :: "string \<Rightarrow> string option" where
  "parseAuthority a =
     (case LastIndexByte a (CHR ''@'') of
        None \<Rightarrow> parseHost a
      | Some i \<Rightarrow>
          (case parseHost (drop (Suc i) a) of
             None \<Rightarrow> None
           | Some host \<Rightarrow>
               let userinfo = take i a in
               if \<not> validUserinfo userinfo then None
               else case Cut userinfo (CHR '':'') of (user, pass, found) \<Rightarrow>
                 if unescape EncUserPassword user = None
                   \<or> found \<and> unescape EncUserPassword pass = None then None
                 else Some host))"

definition is_ctl :: "char \<Rightarrow> bool" where
  "is_ctl c \<longleftrightarrow> byte c < 32 \<or> byte c = 127"

text \<open>\<^verbatim>\<open>parse(rawURL, viaRequest = false)\<close>; a scheme is ASCII, so lower case is bytewise.\<close>

definition url_parse_nofrag :: "string \<Rightarrow> url option" where
  "url_parse_nofrag raw =
     (if list_ex is_ctl raw then None
      else if raw = ''*'' then Some \<lparr>url_Scheme = [], url_Host = []\<rparr>
      else case getScheme raw of
        None \<Rightarrow> None
      | Some (sch, rest0) \<Rightarrow>
          let scheme = map lower_char sch; rest = fst (Cut rest0 (CHR ''?''))
          in if \<not> prefix ''/'' rest \<and> scheme \<noteq> [] then
               Some \<lparr>url_Scheme = scheme, url_Host = []\<rparr>
             else if \<not> prefix ''/'' rest \<and> CHR '':'' \<in> set (fst (Cut rest (CHR ''/''))) then None
             else if (scheme \<noteq> [] \<or> \<not> prefix ''///'' rest) \<and> prefix ''//'' rest then
               (let a = drop 2 rest;
                    authority = takeWhile (\<lambda>c. c \<noteq> CHR ''/'') a;
                    path = dropWhile (\<lambda>c. c \<noteq> CHR ''/'') a
                in case parseAuthority authority of
                     None \<Rightarrow> None
                   | Some host \<Rightarrow>
                       if unescape EncPath path = None then None
                       else Some \<lparr>url_Scheme = scheme, url_Host = host\<rparr>)
             else if unescape EncPath rest = None then None
             else Some \<lparr>url_Scheme = scheme, url_Host = []\<rparr>)"

definition url_Parse :: "string \<Rightarrow> url option" where
  "url_Parse raw =
     (case Cut raw (CHR ''#'') of (u, frag, found) \<Rightarrow>
        case url_parse_nofrag u of
          None \<Rightarrow> None
        | Some url \<Rightarrow>
            if frag \<noteq> [] \<and> unescape EncFragment frag = None then None else Some url)"

text \<open>\<^verbatim>\<open>splitHostPort\<close> of \<^verbatim>\<open>net/url\<close>, behind \<^verbatim>\<open>Hostname()\<close> and \<^verbatim>\<open>Port()\<close>.\<close>

definition url_splitHostPort :: "string \<Rightarrow> string \<times> string" where
  "url_splitHostPort hp =
     (let (host, port) =
        (case LastIndexByte hp (CHR '':'') of
           None \<Rightarrow> (hp, [])
         | Some i \<Rightarrow> if validOptionalPort (drop i hp) then (take i hp, drop (Suc i) hp) else (hp, []))
      in (if prefix ''['' host \<and> suffix '']'' host then drop 1 (take (length host - 1) host) else host,
          port))"

definition Hostname :: "url \<Rightarrow> string" where "Hostname u = fst (url_splitHostPort (url_Host u))"
definition Port :: "url \<Rightarrow> string" where "Port u = snd (url_splitHostPort (url_Host u))"

text \<open>What a port and a host of a parsed URL can look like.\<close>

lemma validOptionalPort_digits: "validOptionalPort p \<Longrightarrow> list_all is_digit (drop 1 p)"
  by (auto simp: validOptionalPort_def split: list.splits)

lemma Port_digits: "list_all is_digit (Port u)"
proof -
  have "list_all is_digit (drop (Suc i) hp)" if "validOptionalPort (drop i hp)" for i and hp :: string
    using validOptionalPort_digits [OF that] by simp
  then show ?thesis
    by (auto simp: Port_def url_splitHostPort_def Let_def split: option.splits)
qed

definition host_char :: "char \<Rightarrow> bool" where
  "host_char c \<longleftrightarrow> 128 \<le> byte c \<or> c = CHR ''%'' \<or> c = CHR '' '' \<or> \<not> should_escape_host c"

lemma unhex_bound: "is_hex c \<Longrightarrow> unhex c < 16"
  by (auto simp: is_hex_def unhex_def is_digit_def)

lemma unescape_host_chars:
  "unescape m s = Some t \<Longrightarrow> m = EncHost \<or> m = EncZone \<Longrightarrow> list_all host_char t"
proof (induction m s arbitrary: t rule: unescape.induct)
  case (1 m)
  then show ?case by simp
next
  case (2 m c cs)
  show ?case
  proof (cases "c = CHR ''%''")
    case True
    then obtain h1 h2 rest where cs: "cs = h1 # h2 # rest"
      using "2.prems" by (auto split: list.splits)
    let ?v = "char_of (unhex h1 * 16 + unhex h2) :: char"
    obtain t' where t': "unescape m rest = Some t'" "t = ?v # t'"
      and hex: "is_hex h1" "is_hex h2"
      and host: "m = EncHost \<Longrightarrow> 8 \<le> unhex h1 \<or> h1 = CHR ''2'' \<and> h2 = CHR ''5''"
      and zone: "m = EncZone \<Longrightarrow>
        (h1 = CHR ''2'' \<and> h2 = CHR ''5'') \<or> ?v = CHR '' '' \<or> \<not> should_escape_host ?v"
      using "2.prems" True cs by (auto simp: Let_def split: if_splits)
    have IH: "list_all host_char t'"
      by (rule "2.IH"(1) [OF True cs refl _ refl refl])
        (use hex host zone t'(1) "2.prems"(2) in auto)
    have "host_char ?v"
    proof (cases "h1 = CHR ''2'' \<and> h2 = CHR ''5''")
      case True
      then have "unhex h1 * 16 + unhex h2 = 37" by (auto simp: unhex_def is_digit_def)
      then have "?v = CHR ''%''" by (simp only:) code_simp
      then show ?thesis by (simp add: host_char_def)
    next
      case False
      then show ?thesis
      proof (cases m)
        case EncHost
        with host False have "8 \<le> unhex h1" by simp
        moreover have "unhex h1 < 16" "unhex h2 < 16" using hex by (simp_all add: unhex_bound)
        ultimately have "128 \<le> byte ?v" by simp
        then show ?thesis by (simp add: host_char_def)
      qed (use zone False "2.prems"(2) in \<open>auto simp: host_char_def\<close>)
    qed
    with IH t' show ?thesis by simp
  next
    case False
    then obtain t' where t': "unescape m cs = Some t'" "t = c # t'"
      and c: "c = CHR ''+'' \<or> 128 \<le> byte c \<or> \<not> should_escape_host c"
      using "2.prems" by (auto split: if_splits)
    have "list_all host_char t'"
      by (rule "2.IH"(2) [OF False]) (use c t'(1) "2.prems"(2) in auto)
    moreover have "host_char c"
      using c by (auto simp: host_char_def should_escape_host_def)
    ultimately show ?thesis using t' by simp
  qed
qed

lemma parseHost_chars: "parseHost a = Some h \<Longrightarrow> list_all host_char h"
  by (auto simp: parseHost_def unescape_host_chars split: if_splits option.splits)

lemma parseAuthority_chars: "parseAuthority a = Some h \<Longrightarrow> list_all host_char h"
  by (auto simp: parseAuthority_def parseHost_chars Let_def split: if_splits option.splits prod.splits)

lemma url_parse_nofrag_host: "url_parse_nofrag raw = Some u \<Longrightarrow> list_all host_char (url_Host u)"
  by (auto simp: url_parse_nofrag_def Let_def parseAuthority_chars
      split: if_splits option.splits prod.splits)

lemma url_Parse_host: "url_Parse raw = Some u \<Longrightarrow> list_all host_char (url_Host u)"
  by (auto simp: url_Parse_def url_parse_nofrag_host split: if_splits option.splits prod.splits)

lemma set_url_splitHostPort: "set (fst (url_splitHostPort hp)) \<subseteq> set hp"
  by (auto simp: url_splitHostPort_def Let_def split: option.splits if_splits
      dest: in_set_takeD in_set_dropD)

lemma Hostname_chars: "url_Parse raw = Some u \<Longrightarrow> list_all host_char (Hostname u)"
  using url_Parse_host [of raw u] set_url_splitHostPort [of "url_Host u"]
  by (auto simp: Hostname_def list_all_iff)

lemma url_Parse_no_ctl:
  assumes "url_Parse raw = Some u" and "c \<in> set (fst (Cut raw (CHR ''#'')))"
  shows "\<not> is_ctl c"
  using assms
  by (auto simp: url_Parse_def url_parse_nofrag_def list_ex_iff
      split: if_splits option.splits prod.splits)

section \<open>http.NewRequest\<close>

text \<open>
  \<^verbatim>\<open>http.NewRequestWithContext\<close> with a non-nil context fails on a method that is not a token
  (the empty one stands for GET) and on a URL \<^verbatim>\<open>url.Parse\<close> refuses.
\<close>

definition NewRequest_ok :: "string \<Rightarrow> string \<Rightarrow> bool" where
  "NewRequest_ok method rawURL \<longleftrightarrow>
     (method = [] \<or> list_all is_token_char method) \<and> url_Parse rawURL \<noteq> None"

definition request_method :: "string \<Rightarrow> string" where
  "request_method m = (if m = [] then ''GET'' else m)"

section \<open>Requests and bodies\<close>

text \<open>
  A body is a stream: its bytes, and whether reading past them reports an error instead of the end.
  \<open>ReadAll_limit n b\<close> is \<^verbatim>\<open>io.ReadAll(io.LimitReader(b, n))\<close>: \<open>None\<close> is an error, which is seen only
  when the limit does not stop the reading first.
\<close>

record body =
  bd_data :: string
  bd_fails :: bool

definition ReadAll_limit :: "int \<Rightarrow> body \<Rightarrow> string option" where
  "ReadAll_limit n b =
     (if n \<le> int (length (bd_data b)) then Some (take (nat n) (bd_data b))
      else if bd_fails b then None
      else Some (bd_data b))"

lemma ReadAll_limit_length: "ReadAll_limit n b = Some s \<Longrightarrow> int (length s) \<le> max 0 n"
  by (auto simp: ReadAll_limit_def split: if_splits)

lemma ReadAll_limit_prefix: "ReadAll_limit n b = Some s \<Longrightarrow> prefix s (bd_data b)"
  by (auto simp: ReadAll_limit_def take_is_prefix split: if_splits)

lemma ReadAll_limit_complete:
  "int (length (bd_data b)) < n \<Longrightarrow> \<not> bd_fails b \<Longrightarrow> ReadAll_limit n b = Some (bd_data b)"
  by (simp add: ReadAll_limit_def)

text \<open>
  The parts of \<^verbatim>\<open>http.Request\<close> that the proxy reads; \<open>rq_URLString\<close> is \<^verbatim>\<open>r.URL.String()\<close> and
  \<open>rq_EscapedPath\<close> is \<^verbatim>\<open>r.URL.EscapedPath()\<close>.
\<close>

record http_request =
  rq_Method :: string
  rq_RequestURI :: string
  rq_URLString :: string
  rq_EscapedPath :: string
  rq_Header :: header
  rq_Body :: "body option"

end
