(* ===== verification/Cfg.thy ===== *)
theory Cfg
  imports Complex_Main "HOL-Library.Word" Go_Net
begin

text \<open>
  \<^verbatim>\<open>internal/config\<close>: the configuration structs, \<^verbatim>\<open>Config.Validate\<close> with its per-section
  checks in the order the code runs them, and the two default configurations. Each error
  message of the code is a constructor of \<open>cfg_error\<close>. Integers are Go's \<open>int\<close> and \<open>int64\<close>,
  read and compared only; rates are \<open>float64\<close> with the special values YAML can spell.
\<close>

section \<open>Numbers of the configuration\<close>

datatype float64 = NaN | NegInf | PosInf | Fin rat

text \<open>\<^verbatim>\<open>x > 0\<close> and \<^verbatim>\<open>x <= 0\<close>: both are false of \<^const>\<open>NaN\<close>.\<close>

fun f_gt0 :: "float64 \<Rightarrow> bool" where
  "f_gt0 NaN = False"
| "f_gt0 NegInf = False"
| "f_gt0 PosInf = True"
| "f_gt0 (Fin r) = (0 < r)"

fun f_le0 :: "float64 \<Rightarrow> bool" where
  "f_le0 NaN = False"
| "f_le0 NegInf = True"
| "f_le0 PosInf = False"
| "f_le0 (Fin r) = (r \<le> 0)"

lemma f_le0_iff: "f_le0 x \<longleftrightarrow> \<not> f_gt0 x \<and> x \<noteq> NaN"
  by (cases x) auto

section \<open>The structs\<close>

record ListenConfig =
  lc_Address :: string
  lc_Port :: int

record ProxyConfig =
  pc_MaxConcurrentRequests :: int
  pc_RequestTimeoutMs :: int

record MaxConfig =
  mx_TokenEnv :: string
  mx_BaseURL :: string
  mx_PeerChatID :: string
  mx_FromHandle :: string
  mx_PollMs :: int
  mx_PollTimeoutSec :: int
  mx_DedupeMaxIDs :: int

record TransportConfig =
  tc_Type :: string
  tc_Max :: MaxConfig

record CryptoConfig =
  cr_PassphraseEnv :: string
  cr_Salt :: string
  cr_Argon2Time :: "32 word"
  cr_Argon2Mem :: "32 word"
  cr_Argon2Threads :: "8 word"

record MessageConfig =
  ms_MaxChars :: int
  ms_SafeChars :: int
  ms_MaxB64Chars :: int

record AckConfig =
  ak_IntervalMs :: int
  ak_TimeoutMs :: int
  ak_MaxRetries :: int

record WindowConfig =
  wn_InitialSize :: int
  wn_MaxSize :: int
  wn_MinSize :: int

record RateLimitsConfig =
  rl_GlobalRPS :: float64
  rl_DataRPS :: float64
  rl_ControlRPS :: float64
  rl_Burst :: int
  rl_Message :: MessageConfig
  rl_Ack :: AckConfig
  rl_Window :: WindowConfig

record PolicyConfig =
  pl_DomainAllowList :: "string list"
  pl_BlockPrivateRanges :: bool
  pl_BlockedPorts :: "int list"
  pl_AllowedPorts :: "int list"
  pl_MaxResponseBytes :: int
  pl_AllowedContentTypes :: "string list"
  pl_AllowedSchemes :: "string list"

record CacheConfig =
  cc_Enabled :: bool
  cc_MaxEntries :: int
  cc_MaxBytes :: int
  cc_MaxEntryBytes :: int
  cc_DefaultTTLSeconds :: int
  cc_CachePrivate :: bool
  cc_CacheWithCookies :: bool
  cc_CacheWithAuthorization :: bool

record ExitConfig =
  ex_RequestTimeoutSec :: int
  ex_ResponseBufferSize :: int

record LogConfig =
  lg_Level :: string
  lg_Format :: string

record Config =
  Mode :: string
  Listen :: ListenConfig
  Proxy :: ProxyConfig
  Transport :: TransportConfig
  Crypto :: CryptoConfig
  Limits :: RateLimitsConfig
  Policy :: PolicyConfig
  Cache :: CacheConfig
  Exit :: ExitConfig
  Log :: LogConfig

section \<open>Validate\<close>

datatype cfg_error =
    BadMode
  | BadTransportType
  | MaxBaseURLEmpty | MaxTokenEnvEmpty | MaxPeerChatIDEmpty | MaxDedupeNotPositive
  | PassphraseEnvUnset | SaltLength nat | Argon2TimeZero | Argon2MemZero | Argon2ThreadsZero
  | ListenEmpty | ListenWildcard
  | MaxConcurrentNotPositive | RequestTimeoutNotPositive
  | BlockedPortInvalid int | AllowedPortInvalid int | SchemeUnsupported string
  | MaxCharsNotPositive | SafeCharsNotPositive | MaxB64CharsNotPositive
  | SafeAboveMax | B64AboveSafe
  | GlobalRPSNotPositive | DataRPSNotPositive | ControlRPSNotPositive | BurstNotPositive
  | WindowMinNotPositive | WindowInitialBelowMin | WindowMaxBelowInitial
  | AckIntervalNotPositive | AckTimeoutNotPositive | AckRetriesNegative
  | CacheEntriesNotPositive | CacheBytesNotPositive | CacheEntryBytesNotPositive
  | CacheEntryAboveTotal | CacheTTLNegative

definition reject_if :: "bool \<Rightarrow> cfg_error \<Rightarrow> cfg_error err" where
  "reject_if b e = (if b then Some e else None)"

definition validateMode :: "Config \<Rightarrow> cfg_error err" where
  "validateMode c = (if Mode c = ''client'' \<or> Mode c = ''exit'' then None else Some BadMode)"

definition validateMax :: "Config \<Rightarrow> cfg_error err" where
  "validateMax c =
     (let mc = tc_Max (Transport c) in
      first_err
        [reject_if (mx_BaseURL mc = '''') MaxBaseURLEmpty,
         reject_if (mx_TokenEnv mc = '''') MaxTokenEnvEmpty,
         reject_if (mx_PeerChatID mc = '''') MaxPeerChatIDEmpty,
         reject_if (mx_DedupeMaxIDs mc \<le> 0) MaxDedupeNotPositive])"

definition validateTransport :: "Config \<Rightarrow> cfg_error err" where
  "validateTransport c =
     (if tc_Type (Transport c) \<noteq> ''memory'' \<and> tc_Type (Transport c) \<noteq> ''max''
      then Some BadTransportType
      else if tc_Type (Transport c) = ''max'' then validateMax c else None)"

definition validateCrypto :: "Config \<Rightarrow> cfg_error err" where
  "validateCrypto c =
     (let cr = Crypto c in
      first_err
        [reject_if (cr_PassphraseEnv cr = '''') PassphraseEnvUnset,
         reject_if (length (cr_Salt cr) \<noteq> 16) (SaltLength (length (cr_Salt cr))),
         reject_if (cr_Argon2Time cr = 0) Argon2TimeZero,
         reject_if (cr_Argon2Mem cr = 0) Argon2MemZero,
         reject_if (cr_Argon2Threads cr = 0) Argon2ThreadsZero])"

definition validateListen :: "Config \<Rightarrow> cfg_error err" where
  "validateListen c =
     (if lc_Address (Listen c) = '''' then Some ListenEmpty
      else if lc_Address (Listen c) = ''0.0.0.0'' \<or> lc_Address (Listen c) = ''::''
      then Some ListenWildcard else None)"

definition validateProxy :: "Config \<Rightarrow> cfg_error err" where
  "validateProxy c =
     first_err
       [reject_if (pc_MaxConcurrentRequests (Proxy c) \<le> 0) MaxConcurrentNotPositive,
        reject_if (pc_RequestTimeoutMs (Proxy c) \<le> 0) RequestTimeoutNotPositive]"

text \<open>\<^verbatim>\<open>for _, x := range xs { if bad(x) { return e(x) } }\<close>\<close>

fun first_bad :: "('a \<Rightarrow> bool) \<Rightarrow> ('a \<Rightarrow> cfg_error) \<Rightarrow> 'a list \<Rightarrow> cfg_error err" where
  "first_bad bad e [] = None"
| "first_bad bad e (x # xs) = (if bad x then Some (e x) else first_bad bad e xs)"

definition bad_port :: "int \<Rightarrow> bool" where
  "bad_port p \<longleftrightarrow> p < 1 \<or> p > 65535"

definition validatePolicy :: "Config \<Rightarrow> cfg_error err" where
  "validatePolicy c =
     first_err
       [first_bad bad_port BlockedPortInvalid (pl_BlockedPorts (Policy c)),
        first_bad bad_port AllowedPortInvalid (pl_AllowedPorts (Policy c)),
        first_bad (\<lambda>s. s \<noteq> ''http'' \<and> s \<noteq> ''https'') SchemeUnsupported
          (pl_AllowedSchemes (Policy c))]"

definition validateMessageLimits :: "Config \<Rightarrow> cfg_error err" where
  "validateMessageLimits c =
     (let m = rl_Message (Limits c) in
      first_err
        [reject_if (ms_MaxChars m \<le> 0) MaxCharsNotPositive,
         reject_if (ms_SafeChars m \<le> 0) SafeCharsNotPositive,
         reject_if (ms_MaxB64Chars m \<le> 0) MaxB64CharsNotPositive,
         reject_if (ms_SafeChars m > ms_MaxChars m) SafeAboveMax,
         reject_if (ms_MaxB64Chars m > ms_SafeChars m) B64AboveSafe])"

definition validateRateLimits :: "Config \<Rightarrow> cfg_error err" where
  "validateRateLimits c =
     (let rl = Limits c in
      first_err
        [reject_if (f_le0 (rl_GlobalRPS rl)) GlobalRPSNotPositive,
         reject_if (f_le0 (rl_DataRPS rl)) DataRPSNotPositive,
         reject_if (f_le0 (rl_ControlRPS rl)) ControlRPSNotPositive,
         reject_if (rl_Burst rl \<le> 0) BurstNotPositive])"

definition validateWindowConfig :: "Config \<Rightarrow> cfg_error err" where
  "validateWindowConfig c =
     (let w = rl_Window (Limits c) in
      first_err
        [reject_if (wn_MinSize w \<le> 0) WindowMinNotPositive,
         reject_if (wn_InitialSize w < wn_MinSize w) WindowInitialBelowMin,
         reject_if (wn_MaxSize w < wn_InitialSize w) WindowMaxBelowInitial])"

definition validateAckConfig :: "Config \<Rightarrow> cfg_error err" where
  "validateAckConfig c =
     (let a = rl_Ack (Limits c) in
      first_err
        [reject_if (ak_IntervalMs a \<le> 0) AckIntervalNotPositive,
         reject_if (ak_TimeoutMs a \<le> 0) AckTimeoutNotPositive,
         reject_if (ak_MaxRetries a < 0) AckRetriesNegative])"

definition validateCache :: "Config \<Rightarrow> cfg_error err" where
  "validateCache c =
     (let cc = Cache c in
      if \<not> cc_Enabled cc then None
      else first_err
        [reject_if (cc_MaxEntries cc \<le> 0) CacheEntriesNotPositive,
         reject_if (cc_MaxBytes cc \<le> 0) CacheBytesNotPositive,
         reject_if (cc_MaxEntryBytes cc \<le> 0) CacheEntryBytesNotPositive,
         reject_if (cc_MaxEntryBytes cc > cc_MaxBytes cc) CacheEntryAboveTotal,
         reject_if (cc_DefaultTTLSeconds cc < 0) CacheTTLNegative])"

text \<open>The guards of the optional sections.\<close>

definition messages_set :: "RateLimitsConfig \<Rightarrow> bool" where
  "messages_set l \<longleftrightarrow> ms_MaxChars (rl_Message l) > 0 \<or> ms_SafeChars (rl_Message l) > 0
     \<or> ms_MaxB64Chars (rl_Message l) > 0"

definition rates_set :: "RateLimitsConfig \<Rightarrow> bool" where
  "rates_set l \<longleftrightarrow> f_gt0 (rl_GlobalRPS l) \<or> f_gt0 (rl_DataRPS l) \<or> f_gt0 (rl_ControlRPS l)
     \<or> rl_Burst l > 0"

definition window_set :: "RateLimitsConfig \<Rightarrow> bool" where
  "window_set l \<longleftrightarrow> wn_InitialSize (rl_Window l) > 0 \<or> wn_MaxSize (rl_Window l) > 0
     \<or> wn_MinSize (rl_Window l) > 0"

definition ack_set :: "RateLimitsConfig \<Rightarrow> bool" where
  "ack_set l \<longleftrightarrow> ak_IntervalMs (rl_Ack l) > 0 \<or> ak_TimeoutMs (rl_Ack l) > 0"

definition Validate :: "Config \<Rightarrow> cfg_error err" where
  "Validate c =
     first_err
       [validateMode c,
        validateTransport c,
        validateCrypto c,
        (if Mode c = ''client'' then first_err [validateListen c, validateProxy c] else None),
        validatePolicy c,
        (if messages_set (Limits c) then validateMessageLimits c else None),
        (if rates_set (Limits c) then validateRateLimits c else None),
        (if window_set (Limits c) then validateWindowConfig c else None),
        (if ack_set (Limits c) then validateAckConfig c else None),
        validateCache c]"

section \<open>Defaults\<close>

definition DefaultClientConfig :: Config where
  "DefaultClientConfig =
     \<lparr>Mode = ''client'',
      Listen = \<lparr>lc_Address = ''127.0.0.1'', lc_Port = 8080\<rparr>,
      Proxy = \<lparr>pc_MaxConcurrentRequests = 64, pc_RequestTimeoutMs = 30000\<rparr>,
      Transport =
        \<lparr>tc_Type = ''memory'',
         tc_Max =
           \<lparr>mx_TokenEnv = ''MAX_API_TOKEN'', mx_BaseURL = '''', mx_PeerChatID = '''',
            mx_FromHandle = '''', mx_PollMs = 1000, mx_PollTimeoutSec = 20,
            mx_DedupeMaxIDs = 4096\<rparr>\<rparr>,
      Crypto =
        \<lparr>cr_PassphraseEnv = ''CHUNKBRIDGE_SHARED_KEY'', cr_Salt = ''saltchangeme1234'',
         cr_Argon2Time = 1, cr_Argon2Mem = 64 * 1024, cr_Argon2Threads = 4\<rparr>,
      Limits =
        \<lparr>rl_GlobalRPS = Fin 5, rl_DataRPS = Fin 4, rl_ControlRPS = Fin 2, rl_Burst = 10,
         rl_Message = \<lparr>ms_MaxChars = 4000, ms_SafeChars = 3600, ms_MaxB64Chars = 3400\<rparr>,
         rl_Ack = \<lparr>ak_IntervalMs = 500, ak_TimeoutMs = 5000, ak_MaxRetries = 5\<rparr>,
         rl_Window = \<lparr>wn_InitialSize = 4, wn_MaxSize = 16, wn_MinSize = 1\<rparr>\<rparr>,
      Policy =
        \<lparr>pl_DomainAllowList = [], pl_BlockPrivateRanges = False, pl_BlockedPorts = [],
         pl_AllowedPorts = [], pl_MaxResponseBytes = 10 * 1024 * 1024,
         pl_AllowedContentTypes = [], pl_AllowedSchemes = [''http'', ''https'']\<rparr>,
      Cache =
        \<lparr>cc_Enabled = False, cc_MaxEntries = 512, cc_MaxBytes = 64 * 1024 * 1024,
         cc_MaxEntryBytes = 2 * 1024 * 1024, cc_DefaultTTLSeconds = 300,
         cc_CachePrivate = False, cc_CacheWithCookies = False,
         cc_CacheWithAuthorization = False\<rparr>,
      Exit = \<lparr>ex_RequestTimeoutSec = 30, ex_ResponseBufferSize = 1024 * 1024\<rparr>,
      Log = \<lparr>lg_Level = ''info'', lg_Format = ''text''\<rparr>\<rparr>"

definition DefaultExitConfig :: Config where
  "DefaultExitConfig =
     (let cfg = DefaultClientConfig;
          cfg = cfg\<lparr>Mode := ''exit''\<rparr>;
          cfg = cfg\<lparr>Policy := (Policy cfg)\<lparr>pl_BlockPrivateRanges := True\<rparr>\<rparr>;
          cfg = cfg\<lparr>Policy := (Policy cfg)
            \<lparr>pl_BlockedPorts := [22, 25, 465, 587, 6379, 5432, 3306, 27017]\<rparr>\<rparr>
      in cfg\<lparr>Policy := (Policy cfg)\<lparr>pl_AllowedSchemes := [''http'', ''https'']\<rparr>\<rparr>)"

section \<open>What an accepted configuration satisfies\<close>

lemma reject_if_None [simp]: "reject_if b e = None \<longleftrightarrow> \<not> b"
  by (simp add: reject_if_def)

lemma first_bad_None [simp]: "first_bad bad e xs = None \<longleftrightarrow> (\<forall>x \<in> set xs. \<not> bad x)"
  by (induction xs) auto

text \<open>
  The requirements the documentation states, section by section. A section the code treats as
  optional is constrained only when one of the fields that switch it on is set.
\<close>

definition transport_valid :: "Config \<Rightarrow> bool" where
  "transport_valid c \<longleftrightarrow>
     (let t = Transport c; m = tc_Max t in
      tc_Type t \<in> {''memory'', ''max''} \<and>
      (tc_Type t = ''max'' \<longrightarrow>
         '''' \<notin> {mx_BaseURL m, mx_TokenEnv m, mx_PeerChatID m} \<and> 0 < mx_DedupeMaxIDs m))"

definition crypto_valid :: "Config \<Rightarrow> bool" where
  "crypto_valid c \<longleftrightarrow>
     (let cr = Crypto c in
      cr_PassphraseEnv cr \<noteq> '''' \<and> length (cr_Salt cr) = 16 \<and>
      0 < cr_Argon2Time cr \<and> 0 < cr_Argon2Mem cr \<and> 0 < cr_Argon2Threads cr)"

definition client_valid :: "Config \<Rightarrow> bool" where
  "client_valid c \<longleftrightarrow>
     lc_Address (Listen c) \<notin> {'''', ''0.0.0.0'', ''::''} \<and>
     0 < pc_MaxConcurrentRequests (Proxy c) \<and> 0 < pc_RequestTimeoutMs (Proxy c)"

definition policy_valid :: "Config \<Rightarrow> bool" where
  "policy_valid c \<longleftrightarrow>
     set (pl_BlockedPorts (Policy c)) \<union> set (pl_AllowedPorts (Policy c)) \<subseteq> {1..65535} \<and>
     set (pl_AllowedSchemes (Policy c)) \<subseteq> {''http'', ''https''}"

definition limits_valid :: "RateLimitsConfig \<Rightarrow> bool" where
  "limits_valid l \<longleftrightarrow>
     (let m = rl_Message l; w = rl_Window l; a = rl_Ack l in
      (messages_set l \<longrightarrow>
         0 < ms_MaxB64Chars m \<and> ms_MaxB64Chars m \<le> ms_SafeChars m
         \<and> ms_SafeChars m \<le> ms_MaxChars m) \<and>
      (rates_set l \<longrightarrow>
         (\<forall>r \<in> {rl_GlobalRPS l, rl_DataRPS l, rl_ControlRPS l}. f_gt0 r \<or> r = NaN)
         \<and> 0 < rl_Burst l) \<and>
      (window_set l \<longrightarrow>
         0 < wn_MinSize w \<and> wn_MinSize w \<le> wn_InitialSize w
         \<and> wn_InitialSize w \<le> wn_MaxSize w) \<and>
      (ack_set l \<longrightarrow>
         0 < ak_IntervalMs a \<and> 0 < ak_TimeoutMs a \<and> 0 \<le> ak_MaxRetries a))"

definition cache_valid :: "CacheConfig \<Rightarrow> bool" where
  "cache_valid cc \<longleftrightarrow>
     (cc_Enabled cc \<longrightarrow>
        0 < cc_MaxEntries cc \<and> 0 < cc_MaxEntryBytes cc \<and> cc_MaxEntryBytes cc \<le> cc_MaxBytes cc
        \<and> 0 \<le> cc_DefaultTTLSeconds cc)"

lemma validateMode_None: "validateMode c = None \<longleftrightarrow> Mode c \<in> {''client'', ''exit''}"
  by (simp add: validateMode_def)

lemma validateTransport_None: "validateTransport c = None \<longleftrightarrow> transport_valid c"
  by (auto simp: validateTransport_def validateMax_def transport_valid_def Let_def)

lemma validateCrypto_None: "validateCrypto c = None \<longleftrightarrow> crypto_valid c"
  by (auto simp: validateCrypto_def crypto_valid_def Let_def word_neq_0_conv)

lemma validateListen_Proxy_None:
  "validateListen c = None \<and> validateProxy c = None \<longleftrightarrow> client_valid c"
  by (auto simp: validateListen_def validateProxy_def client_valid_def)

lemma validatePolicy_None: "validatePolicy c = None \<longleftrightarrow> policy_valid c"
  by (auto simp: validatePolicy_def policy_valid_def bad_port_def subset_iff)

lemma validateMessageLimits_None:
  "validateMessageLimits c = None \<longleftrightarrow>
     (let m = rl_Message (Limits c) in
      0 < ms_MaxB64Chars m \<and> ms_MaxB64Chars m \<le> ms_SafeChars m \<and> ms_SafeChars m \<le> ms_MaxChars m)"
  by (auto simp: validateMessageLimits_def Let_def)

lemma validateRateLimits_None:
  "validateRateLimits c = None \<longleftrightarrow>
     (\<forall>r \<in> {rl_GlobalRPS (Limits c), rl_DataRPS (Limits c), rl_ControlRPS (Limits c)}.
        f_gt0 r \<or> r = NaN) \<and> 0 < rl_Burst (Limits c)"
  by (auto simp: validateRateLimits_def Let_def f_le0_iff)

lemma validateWindowConfig_None:
  "validateWindowConfig c = None \<longleftrightarrow>
     (let w = rl_Window (Limits c) in
      0 < wn_MinSize w \<and> wn_MinSize w \<le> wn_InitialSize w \<and> wn_InitialSize w \<le> wn_MaxSize w)"
  by (auto simp: validateWindowConfig_def Let_def)

lemma validateAckConfig_None:
  "validateAckConfig c = None \<longleftrightarrow>
     (let a = rl_Ack (Limits c) in
      0 < ak_IntervalMs a \<and> 0 < ak_TimeoutMs a \<and> 0 \<le> ak_MaxRetries a)"
  by (auto simp: validateAckConfig_def Let_def)

lemma validateLimits_None:
  "(messages_set (Limits c) \<longrightarrow> validateMessageLimits c = None) \<and>
   (rates_set (Limits c) \<longrightarrow> validateRateLimits c = None) \<and>
   (window_set (Limits c) \<longrightarrow> validateWindowConfig c = None) \<and>
   (ack_set (Limits c) \<longrightarrow> validateAckConfig c = None) \<longleftrightarrow> limits_valid (Limits c)"
  by (simp only: limits_valid_def Let_def validateMessageLimits_None validateRateLimits_None
      validateWindowConfig_None validateAckConfig_None)

lemma validateCache_None: "validateCache c = None \<longleftrightarrow> cache_valid (Cache c)"
  by (auto simp: validateCache_def cache_valid_def Let_def)

lemmas validate_sections =
  validateMode_None validateTransport_None validateCrypto_None
  validatePolicy_None validateCache_None

lemma Validate_None_sections:
  "Validate c = None \<longleftrightarrow>
     Mode c \<in> {''client'', ''exit''} \<and> transport_valid c \<and> crypto_valid c \<and>
     (Mode c = ''client'' \<longrightarrow> client_valid c) \<and> policy_valid c \<and>
     limits_valid (Limits c) \<and> cache_valid (Cache c)"
  unfolding Validate_def validateLimits_None [of c, symmetric]
    validateListen_Proxy_None [of c, symmetric]
  by (simp add: validate_sections)

lemmas config_specs =
  transport_valid_def crypto_valid_def client_valid_def policy_valid_def limits_valid_def
  cache_valid_def messages_set_def rates_set_def window_set_def ack_set_def Let_def

text \<open>
  C17: \<open>Config.Validate\<close> accepts a configuration exactly when the documented requirements of every
  section hold: mode, transport, key derivation, listener and request limits (in client mode
  only), outbound policy, the optional message, rate, window and ack sections, and the cache.
\<close>

theorem Validate_accepts_iff:
  "Validate c = None \<longleftrightarrow>
     Mode c \<in> {''client'', ''exit''} \<and> transport_valid c \<and> crypto_valid c \<and>
     (Mode c = ''client'' \<longrightarrow> client_valid c) \<and> policy_valid c \<and>
     limits_valid (Limits c) \<and> cache_valid (Cache c)"
  by (rule Validate_None_sections)

theorem Validate_accepts_iff_witness:
  "Validate (DefaultClientConfig\<lparr>Mode := ''exit''\<rparr>) = None"
  by (simp add: Validate_accepts_iff DefaultClientConfig_def config_specs)

text \<open>
  both built-in default configurations pass validation, and the exit default differs from the
  client default only in the mode and in a policy that blocks private addresses and eight ports.
\<close>

theorem default_configs_valid:
  "Validate DefaultClientConfig = None \<and> Validate DefaultExitConfig = None \<and>
   DefaultExitConfig =
     DefaultClientConfig
       \<lparr>Mode := ''exit'',
        Policy := (Policy DefaultClientConfig)
          \<lparr>pl_BlockPrivateRanges := True,
           pl_BlockedPorts := [22, 25, 465, 587, 6379, 5432, 3306, 27017]\<rparr>\<rparr>"
proof (intro conjI)
  show "Validate DefaultClientConfig = None"
    by (simp add: Validate_None_sections DefaultClientConfig_def config_specs)
  show "Validate DefaultExitConfig = None"
    by (simp add: Validate_None_sections DefaultExitConfig_def DefaultClientConfig_def config_specs)
qed (simp add: DefaultExitConfig_def DefaultClientConfig_def Let_def)

end
