(* ===== verification/Go_IP.thy ===== *)
theory Go_IP
  imports Go_Net
begin

text \<open>
  \<^verbatim>\<open>net.ParseIP\<close> of Go 1.25.0 (\<^verbatim>\<open>netip.ParseAddr\<close>, with an address in a zone refused): the
  textual form of an IPv4 or IPv6 address to its sixteen bytes, an IPv4 address in the mapped
  form ten zero bytes, twice 255, then the four octets.
\<close>

type_synonym ip_bytes = "nat list"

section \<open>IPv4\<close>

text \<open>
  The loop of \<^verbatim>\<open>parseIPv4Fields\<close>: the octets read, the value and the number of digits of the
  octet being read. A dot ends an octet, which must have a digit; the string must not end in
  a dot; there are exactly four octets.
\<close>

fun parse_v4 :: "string \<Rightarrow> nat list \<Rightarrow> nat \<Rightarrow> nat \<Rightarrow> nat list option" where
  "parse_v4 [] done val digs =
     (if length done = 3 then Some (done @ [val]) else None)"
| "parse_v4 (c # cs) done val digs =
     (if is_digit c then
        (if digs = 1 \<and> val = 0 then None
         else let v = val * 10 + (byte c - 48) in
              if v > 255 then None else parse_v4 cs done v (Suc digs))
      else if c = CHR ''.'' then
        (if digs = 0 \<or> cs = [] then None
         else if length done = 3 then None
         else parse_v4 cs (done @ [val]) 0 0)
      else None)"

definition parseIPv4 :: "string \<Rightarrow> nat list option" where
  "parseIPv4 s = parse_v4 s [] 0 0"

definition v4_mapped :: "nat list \<Rightarrow> ip_bytes" where
  "v4_mapped os = replicate 10 0 @ [255, 255] @ os"

section \<open>IPv6\<close>

text \<open>One group: the value and the rest of the string; at least one and at most four digits.\<close>

definition parse_group :: "string \<Rightarrow> (nat \<times> string) option" where
  "parse_group s =
     (let ds = takeWhile is_hex s in
      if ds = [] \<or> 4 < length ds then None
      else Some (foldl (\<lambda>a d. a * 16 + unhex d) 0 ds, drop (length ds) s))"

text \<open>
  The loop of \<^verbatim>\<open>parseIPv6\<close>, one call per group: the bytes written so far (their number is the
  index \<^verbatim>\<open>i\<close>) and the position of the ellipsis. The result is the bytes, the ellipsis and the
  string that is left when the loop ends.
\<close>

function parse_v6 :: "string \<Rightarrow> nat list \<Rightarrow> nat option \<Rightarrow> (nat list \<times> nat option \<times> string) option"
where
  "parse_v6 s out ell =
     (if 16 \<le> length out then Some (out, ell, s)
      else case parse_group s of
        None \<Rightarrow> None
      | Some (acc, rest) \<Rightarrow>
          if rest \<noteq> [] \<and> hd rest = CHR ''.'' then
            (if ell = None \<and> length out \<noteq> 12 \<or> 16 < length out + 4 then None
             else case parseIPv4 s of
               None \<Rightarrow> None
             | Some os \<Rightarrow> Some (out @ os, ell, []))
          else let out' = out @ [acc div 256, acc mod 256] in
            (case rest of
               [] \<Rightarrow> Some (out', ell, [])
             | c # s1 \<Rightarrow>
                 if c \<noteq> CHR '':'' \<or> s1 = [] then None
                 else if hd s1 = CHR '':'' then
                   (if ell \<noteq> None then None
                    else if tl s1 = [] then Some (out', Some (length out'), [])
                    else parse_v6 (tl s1) out' (Some (length out')))
                 else parse_v6 s1 out' ell))"
  by pat_completeness auto
termination
  by (relation "measure (\<lambda>(s, out, ell). 16 - length out)") auto

declare parse_v6.simps [simp del]

definition parseIPv6 :: "string \<Rightarrow> nat list option" where
  "parseIPv6 s =
     (let (ell, s') = (if prefix ''::'' s then (Some 0, drop 2 s) else (None, s)) in
      if ell \<noteq> None \<and> s' = [] then Some (replicate 16 0)
      else case parse_v6 s' [] ell of
        None \<Rightarrow> None
      | Some (out, ell', left) \<Rightarrow>
          if left \<noteq> [] then None
          else if length out < 16 then
            (case ell' of
               None \<Rightarrow> None
             | Some e \<Rightarrow> Some (take e out @ replicate (16 - length out) 0 @ drop e out))
          else if ell' \<noteq> None then None else Some out)"

section \<open>ParseIP\<close>

text \<open>
  The first of \<open>.\<close>, \<open>:\<close> and \<open>%\<close> in the string selects the parser; a zone (the part after
  \<open>%\<close>) makes the result \<^verbatim>\<open>nil\<close> whether or not it is well formed.
\<close>

definition ParseIP :: "string \<Rightarrow> ip_bytes option" where
  "ParseIP s =
     (case dropWhile (\<lambda>c. c \<noteq> CHR ''.'' \<and> c \<noteq> CHR '':'' \<and> c \<noteq> CHR ''%'') s of
        [] \<Rightarrow> None
      | c # _ \<Rightarrow>
          if c = CHR ''.'' then map_option v4_mapped (parseIPv4 s)
          else if c = CHR '':'' then (if CHR ''%'' \<in> set s then None else parseIPv6 s)
          else None)"

section \<open>Facts\<close>

lemma parse_v4_result:
  "parse_v4 s os val digs = Some r \<Longrightarrow> val < 256 \<Longrightarrow> \<forall>x \<in> set os. x < 256 \<Longrightarrow>
   length r = 4 \<and> (\<forall>x \<in> set r. x < 256)"
proof (induction s os val digs rule: parse_v4.induct)
  case (1 os val digs)
  then show ?case by (auto split: if_splits)
next
  case (2 c cs os val digs)
  show ?case
  proof (cases "is_digit c")
    case True
    let ?v = "val * 10 + (byte c - 48)"
    have ok: "\<not> (digs = 1 \<and> val = 0)" "\<not> 255 < ?v" "parse_v4 cs os ?v (Suc digs) = Some r"
      using "2.prems"(1) True by (simp_all add: Let_def split: if_splits)
    show ?thesis
      by (rule "2.IH"(1) [OF True ok(1) refl ok(2) ok(3)]) (use ok "2.prems"(3) in simp_all)
  next
    case False
    then have ok: "c = CHR ''.''" "\<not> (digs = 0 \<or> cs = [])" "length os \<noteq> 3"
        "parse_v4 cs (os @ [val]) 0 0 = Some r"
      using "2.prems"(1) by (simp_all split: if_splits)
    show ?thesis
      by (rule "2.IH"(2) [OF False ok]) (use "2.prems"(2,3) in auto)
  qed
qed

text \<open>A dotted quad of four octets is read back as those octets.\<close>

definition dotted :: "nat list \<Rightarrow> string" where
  "dotted os = Join (map nat_digits os) (CHR ''.'')"

lemma parse_v4_digit:
  assumes "is_digit c" "\<not> (digs = 1 \<and> val = 0)" "val * 10 + (byte c - 48) \<le> 255"
  shows "parse_v4 (c # cs) os val digs = parse_v4 cs os (val * 10 + (byte c - 48)) (Suc digs)"
  using assms by (auto simp: Let_def)

lemma nat_digits_one: "n < 10 \<Longrightarrow> nat_digits n = [char_of (48 + n)]"
  by (subst nat_digits.simps) simp

lemma nat_digits_step:
  "10 \<le> n \<Longrightarrow> nat_digits n = nat_digits (n div 10) @ [char_of (48 + n mod 10)]"
  by (subst nat_digits.simps) simp

lemma digit_char: "k < 10 \<Longrightarrow> is_digit (char_of (48 + k)) \<and> byte (char_of (48 + k)) - 48 = k"
  by (simp add: is_digit_def)

lemma parse_v4_octet:
  assumes "n < 256"
  shows "parse_v4 (nat_digits n @ t) os 0 0 = parse_v4 t os n (length (nat_digits n))"
proof -
  have step: "parse_v4 (char_of (48 + k) # cs) os v g = parse_v4 cs os (v * 10 + k) (Suc g)"
    if "k < 10" "\<not> (g = 1 \<and> v = 0)" "v * 10 + k \<le> 255" for k cs v g
    using that digit_char [of k] parse_v4_digit [of "char_of (48 + k)" g v cs os] by simp
  consider "n < 10" | "10 \<le> n" "n < 100" | "100 \<le> n" by linarith
  then show ?thesis
  proof cases
    case 1
    then show ?thesis using step [of n 0 0] by (simp add: nat_digits_one del: parse_v4.simps)
  next
    case 2
    let ?b = "n div 10" and ?c = "n mod 10"
    have d: "?b < 10" "?c < 10" "0 < ?b" "?b * 10 + ?c = n" using 2 by auto
    have "nat_digits n = [char_of (48 + ?b), char_of (48 + ?c)]"
      using 2 d by (simp add: nat_digits_step nat_digits_one)
    then show ?thesis
      using d assms step [of ?b 0 0 "char_of (48 + ?c) # t"] step [of ?c 1 ?b t]
      by (simp del: parse_v4.simps)
  next
    case 3
    let ?a = "n div 10 div 10" and ?b = "n div 10 mod 10" and ?c = "n mod 10"
    have d: "?a < 10" "?b < 10" "?c < 10" "0 < ?a" "?a * 10 + ?b = n div 10" "n div 10 * 10 + ?c = n"
      and n: "10 \<le> n div 10" "n div 10 \<le> 25"
      using 3 assms by auto
    have "nat_digits n = [char_of (48 + ?a), char_of (48 + ?b), char_of (48 + ?c)]"
      using 3 d n by (simp add: nat_digits_step [of n] nat_digits_step [of "n div 10"] nat_digits_one)
    then show ?thesis
      using d n assms step [of ?a 0 0 "char_of (48 + ?b) # char_of (48 + ?c) # t"]
        step [of ?b 1 ?a "char_of (48 + ?c) # t"] step [of ?c 2 "n div 10" t]
      by (simp add: numeral_2_eq_2 numeral_3_eq_3 del: parse_v4.simps)
  qed
qed

lemma parse_v4_dot:
  assumes "digs \<noteq> 0" "t \<noteq> []" "length os \<noteq> 3"
  shows "parse_v4 (CHR ''.'' # t) os val digs = parse_v4 t (os @ [val]) 0 0"
  using assms by (simp add: is_digit_def)

lemma parseIPv4_dotted:
  assumes "a < 256" "b < 256" "c < 256" "d < 256"
  shows "parseIPv4 (dotted [a, b, c, d]) = Some [a, b, c, d]"
proof -
  have "parse_v4 (nat_digits d) [a, b, c] 0 0 = Some [a, b, c, d]"
    using parse_v4_octet [OF assms(4), of "[]"] by simp
  then show ?thesis
    using assms
    by (simp add: parseIPv4_def dotted_def parse_v4_octet parse_v4_dot del: parse_v4.simps)
qed

lemma ParseIP_dotted:
  assumes "a < 256" "b < 256" "c < 256" "d < 256"
  shows "ParseIP (dotted [a, b, c, d]) = Some (v4_mapped [a, b, c, d])"
proof -
  have "dropWhile (\<lambda>c. c \<noteq> CHR ''.'' \<and> c \<noteq> CHR '':'' \<and> c \<noteq> CHR ''%'') (nat_digits a @ t) =
        dropWhile (\<lambda>c. c \<noteq> CHR ''.'' \<and> c \<noteq> CHR '':'' \<and> c \<noteq> CHR ''%'') t" for t
    by (rule dropWhile_append2) (use nat_digits_set in \<open>fastforce simp: is_digit_def\<close>)
  then show ?thesis
    using assms by (simp add: ParseIP_def dotted_def parseIPv4_dotted [unfolded dotted_def, simplified])
qed

end
