(* ===== verification/Http_Policy.thy ===== *)
theory Http_Policy
  imports Cfg Go_IP
begin

text \<open>
  \<^verbatim>\<open>internal/policy\<close>: the outbound request policy that the proxy applies before it relays a request
  and the exit node applies before it makes one. Two things are parameters, collected in
  \<open>policy_env\<close>: the private-address test of the module \<^verbatim>\<open>safedialer\<close>, which is not part of the
  repository, and the Unicode lower-case table outside ASCII. Each denial of the code is a
  constructor of \<open>policy_error\<close>; \<open>None\<close> is the \<^verbatim>\<open>nil\<close> error.
\<close>

record policy_env =
  pe_lower :: "nat \<Rightarrow> nat"
  pe_IsPrivateIP :: "ip_bytes \<Rightarrow> bool"

datatype policy_error =
    InvalidURL
  | SchemeNotAllowed string
  | InvalidPort string
  | PortNotAllowed int
  | PrivateIPNotAllowed string
  | DomainNotInAllowList string

section \<open>Ports\<close>

definition IsAllowedPort :: "int \<Rightarrow> PolicyConfig \<Rightarrow> bool" where
  "IsAllowedPort port cfg =
     (if list_ex (\<lambda>b. port = b) (pl_BlockedPorts cfg) then False
      else if pl_AllowedPorts cfg = [] then True
      else list_ex (\<lambda>a. port = a) (pl_AllowedPorts cfg))"

section \<open>Domains\<close>

text \<open>One pass of the loop: the entry is equal, or a wildcard whose suffix the host ends in.\<close>

definition domain_entry_allows :: "string \<Rightarrow> string \<Rightarrow> bool" where
  "domain_entry_allows h a \<longleftrightarrow> h = a \<or> (HasPrefix a ''*.'' \<and> HasSuffix h (drop 1 a))"

definition IsAllowedDomain :: "(nat \<Rightarrow> nat) \<Rightarrow> string \<Rightarrow> string list \<Rightarrow> bool" where
  "IsAllowedDomain ul host allowList =
     (if allowList = [] then True
      else let h = (case SplitHostPort host of None \<Rightarrow> host | Some (h, p) \<Rightarrow> h);
               h = to_lower ul h
           in list_ex (\<lambda>allowed. domain_entry_allows h (to_lower ul allowed)) allowList)"

section \<open>Requests\<close>

definition default_port :: "string \<Rightarrow> int" where
  "default_port scheme = (if scheme = ''https'' then 443 else 80)"

definition CheckRequest :: "policy_env \<Rightarrow> PolicyConfig \<Rightarrow> string \<Rightarrow> policy_error err" where
  "CheckRequest env cfg rawURL =
     (case url_Parse rawURL of
        None \<Rightarrow> Some InvalidURL
      | Some u \<Rightarrow>
          let scheme = url_Scheme u in
          if pl_AllowedSchemes cfg \<noteq> [] \<and> \<not> list_ex (\<lambda>s. s = scheme) (pl_AllowedSchemes cfg)
          then Some (SchemeNotAllowed scheme)
          else let host = Hostname u; portStr = Port u in
            case (if portStr \<noteq> [] then Atoi portStr else Some (default_port scheme)) of
              None \<Rightarrow> Some (InvalidPort portStr)
            | Some port \<Rightarrow>
                if \<not> IsAllowedPort port cfg then Some (PortNotAllowed port)
                else if pl_BlockPrivateRanges cfg
                  \<and> (case ParseIP host of None \<Rightarrow> False | Some ip \<Rightarrow> pe_IsPrivateIP env ip)
                then Some (PrivateIPNotAllowed host)
                else if \<not> IsAllowedDomain (pe_lower env) host (pl_DomainAllowList cfg)
                then Some (DomainNotInAllowList host)
                else None)"

section \<open>Responses\<close>

datatype response_error = ResponseTooLarge int int | ContentTypeNotAllowed string

definition CheckResponseSize :: "int \<Rightarrow> PolicyConfig \<Rightarrow> response_error err" where
  "CheckResponseSize sz cfg =
     (if pl_MaxResponseBytes cfg > 0 \<and> sz > pl_MaxResponseBytes cfg
      then Some (ResponseTooLarge sz (pl_MaxResponseBytes cfg)) else None)"

text \<open>The content type without its parameters, in lower case.\<close>

definition media_type :: "(nat \<Rightarrow> nat) \<Rightarrow> string \<Rightarrow> string" where
  "media_type ul contentType =
     (let ct = (case IndexByte contentType (CHR '';'') of
                  Some idx \<Rightarrow> TrimSpace (take idx contentType)
                | None \<Rightarrow> contentType)
      in to_lower ul ct)"

definition CheckContentType :: "(nat \<Rightarrow> nat) \<Rightarrow> string \<Rightarrow> PolicyConfig \<Rightarrow> response_error err" where
  "CheckContentType ul contentType cfg =
     (if pl_AllowedContentTypes cfg = [] then None
      else if list_ex (\<lambda>a. to_lower ul a = media_type ul contentType) (pl_AllowedContentTypes cfg)
      then None
      else Some (ContentTypeNotAllowed contentType))"

section \<open>Facts\<close>

lemma IsAllowedPort_iff:
  "IsAllowedPort port cfg \<longleftrightarrow>
     port \<notin> set (pl_BlockedPorts cfg) \<and>
     (pl_AllowedPorts cfg = [] \<or> port \<in> set (pl_AllowedPorts cfg))"
  by (auto simp: IsAllowedPort_def list_ex_iff)

text \<open>What a wildcard entry matches, in terms of labels rather than byte positions.\<close>

lemma domain_entry_allows_iff:
  "domain_entry_allows h a \<longleftrightarrow>
     h = a \<or> (\<exists>d sub. a = ''*.'' @ d \<and> h = sub @ ''.'' @ d)"
proof -
  have "HasPrefix a ''*.'' \<and> HasSuffix h (drop 1 a) \<longleftrightarrow>
        (\<exists>d sub. a = ''*.'' @ d \<and> h = sub @ ''.'' @ d)"
    by (auto simp: prefix_def suffix_def)
  then show ?thesis by (simp add: domain_entry_allows_def)
qed


text \<open>The port a request to a parsed URL uses, when it can be read.\<close>

definition effective_port :: "url \<Rightarrow> int option" where
  "effective_port u = (if Port u \<noteq> [] then Atoi (Port u) else Some (default_port (url_Scheme u)))"

definition request_allowed :: "policy_env \<Rightarrow> PolicyConfig \<Rightarrow> url \<Rightarrow> bool" where
  "request_allowed env cfg u \<longleftrightarrow>
     (pl_AllowedSchemes cfg = [] \<or> url_Scheme u \<in> set (pl_AllowedSchemes cfg)) \<and>
     (\<exists>port. effective_port u = Some port \<and> port \<notin> set (pl_BlockedPorts cfg) \<and>
        (pl_AllowedPorts cfg = [] \<or> port \<in> set (pl_AllowedPorts cfg))) \<and>
     (pl_BlockPrivateRanges cfg \<longrightarrow>
        (\<forall>ip. ParseIP (Hostname u) = Some ip \<longrightarrow> \<not> pe_IsPrivateIP env ip)) \<and>
     IsAllowedDomain (pe_lower env) (Hostname u) (pl_DomainAllowList cfg)"

lemma CheckRequest_None_iff:
  "CheckRequest env cfg rawURL = None \<longleftrightarrow>
     (\<exists>u. url_Parse rawURL = Some u \<and> request_allowed env cfg u)"
proof (cases "url_Parse rawURL")
  case None
  then show ?thesis by (simp add: CheckRequest_def)
next
  case (Some u)
  show ?thesis
  proof (cases "effective_port u")
    case None
    with Some show ?thesis
      by (auto simp: CheckRequest_def request_allowed_def effective_port_def Let_def
          split: if_splits)
  next
    case port: (Some p)
    with Some show ?thesis
      by (auto simp: CheckRequest_def request_allowed_def effective_port_def Let_def list_ex_iff
          IsAllowedPort_iff split: option.splits if_splits)
  qed
qed


lemma SplitHostPort_no_colon: "CHR '':'' \<notin> set h \<Longrightarrow> SplitHostPort h = None"
  by (simp add: SplitHostPort_def LastIndexByte_absent del: LastIndexByte_None)

lemma IsAllowedDomain_iff:
  assumes "CHR '':'' \<notin> set host" and "allow \<noteq> []"
  shows "IsAllowedDomain ul host allow \<longleftrightarrow>
    (\<exists>a \<in> set allow. domain_entry_allows (to_lower ul host) (to_lower ul a))"
  using assms by (simp add: IsAllowedDomain_def SplitHostPort_no_colon Let_def list_ex_iff)

lemma is_ascii_append [simp]: "is_ascii (s @ t) \<longleftrightarrow> is_ascii s \<and> is_ascii t"
  by (simp add: is_ascii_def)

lemma is_ascii_Cons [simp]: "is_ascii (c # s) \<longleftrightarrow> byte c < 128 \<and> is_ascii s"
  by (simp add: is_ascii_def)

lemma is_ascii_Nil [simp]: "is_ascii []"
  by (simp add: is_ascii_def)


section \<open>Properties\<close>




text \<open>
  while private ranges are blocked, a URL whose host is the dotted form of an IPv4 address
  that the private-address test knows is denied, whatever the rest of the policy allows.
\<close>

theorem private_literal_denied:
  assumes "pl_BlockPrivateRanges cfg" and "url_Parse rawURL = Some u"
    and "Hostname u = dotted [a, b, c, d]" and "a < 256" "b < 256" "c < 256" "d < 256"
    and "pe_IsPrivateIP env (v4_mapped [a, b, c, d])"
  shows "CheckRequest env cfg rawURL \<noteq> None"
proof
  assume "CheckRequest env cfg rawURL = None"
  with assms(2) have "request_allowed env cfg u"
    by (simp add: CheckRequest_None_iff)
  moreover have "ParseIP (Hostname u) = Some (v4_mapped [a, b, c, d])"
    using assms by (simp add: ParseIP_dotted)
  ultimately show False using assms by (simp add: request_allowed_def)
qed

theorem private_literal_denied_witness:
  "CheckRequest \<lparr>pe_lower = id, pe_IsPrivateIP = (\<lambda>ip. ip ! 12 = 10)\<rparr> (Policy DefaultExitConfig)
     ''http://10.0.0.1/'' \<noteq> None"
proof (rule private_literal_denied)
  show "pl_BlockPrivateRanges (Policy DefaultExitConfig)" by code_simp
  show "url_Parse ''http://10.0.0.1/'' = Some \<lparr>url_Scheme = ''http'', url_Host = ''10.0.0.1''\<rparr>"
    by code_simp
  show "Hostname \<lparr>url_Scheme = ''http'', url_Host = ''10.0.0.1''\<rparr> = dotted [10, 0, 0, 1]"
    by code_simp
  show "pe_IsPrivateIP \<lparr>pe_lower = id, pe_IsPrivateIP = (\<lambda>ip. ip ! 12 = 10)\<rparr> (v4_mapped [10, 0, 0, 1])"
    by code_simp
qed simp_all

text \<open>
  a wildcard entry \<open>*.d\<close> admits exactly the hosts that end in a dot followed by \<open>d\<close>, without
  regard to case (and the literal text of the entry). In particular neither \<open>d\<close> itself nor a
  host that merely ends in the letters of \<open>d\<close> is admitted.
\<close>

theorem wildcard_domain_iff:
  assumes "is_ascii host" "is_ascii d" "CHR '':'' \<notin> set host"
  shows "IsAllowedDomain ul host [''*.'' @ d] \<longleftrightarrow>
    map lower_char host = ''*.'' @ map lower_char d
    \<or> (\<exists>sub. map lower_char host = sub @ ''.'' @ map lower_char d)"
proof -
  have star: "lower_char (CHR ''*'') = CHR ''*''" "lower_char (CHR ''.'') = CHR ''.''" by code_simp+
  have "to_lower ul (''*.'' @ d) = ''*.'' @ map lower_char d"
    using assms(2) star by (simp add: to_lower_ascii)
  then show ?thesis
    using assms by (simp add: IsAllowedDomain_iff to_lower_ascii domain_entry_allows_iff)
qed

theorem wildcard_domain_iff_witness:
  "\<not> IsAllowedDomain id ''evilexample.com'' [''*.example.com'']
   \<and> \<not> IsAllowedDomain id ''example.com'' [''*.example.com'']
   \<and> IsAllowedDomain id ''API.example.com'' [''*.example.com'']"
proof -
  have no: "x # xs \<noteq> sub @ CHR ''.'' # ys" if "length ys = length (x # xs)" for x xs sub ys
    using that by (metis length_Cons length_append less_add_Suc2 nat_neq_iff)
  have a: "IsAllowedDomain id h [''*.'' @ ''example.com''] \<longleftrightarrow>
      map lower_char h = ''*.'' @ map lower_char ''example.com''
      \<or> (\<exists>sub. map lower_char h = sub @ ''.'' @ map lower_char ''example.com'')"
    if "is_ascii h" "CHR '':'' \<notin> set h" for h
    by (rule wildcard_domain_iff) (use that in \<open>simp_all add: is_ascii_def\<close>)
  have l: "map lower_char ''example.com'' = ''example.com''"
    "map lower_char ''evilexample.com'' = ''evilexample.com''"
    "map lower_char ''API.example.com'' = ''api'' @ ''.'' @ ''example.com''" by code_simp+
  have s: "\<not> (\<exists>sub. ''evilexample.com'' = sub @ ''.'' @ ''example.com'')"
    by (auto simp: append_eq_Cons_conv Cons_eq_append_conv)
  have s': "\<not> (\<exists>sub. ''example.com'' = sub @ ''.'' @ ''example.com'')"
    by (auto simp: append_eq_Cons_conv Cons_eq_append_conv)
  show ?thesis
    using a [of "''evilexample.com''"] a [of "''example.com''"] a [of "''API.example.com''"] l s s'
    by (auto simp: is_ascii_def)
qed

text \<open>
  the response content type is matched without its parameters: whatever follows the first
  semicolon has no influence on whether the policy accepts it.
\<close>

theorem content_type_parameters_ignored:
  assumes "CHR '';'' \<notin> set t"
  shows "CheckContentType ul (t @ '';'' @ params) cfg = None \<longleftrightarrow>
    pl_AllowedContentTypes cfg = [] \<or>
    to_lower ul (TrimSpace t) \<in> to_lower ul ` set (pl_AllowedContentTypes cfg)"
  using assms
  by (simp add: CheckContentType_def media_type_def IndexByte_append list_ex_iff image_iff) metis

theorem content_type_parameters_ignored_witness:
  "CheckContentType id (''Text/HTML '' @ '';'' @ '' charset=utf-8'')
     ((Policy DefaultExitConfig)\<lparr>pl_AllowedContentTypes := [''text/html'']\<rparr>) = None"
proof -
  have "to_lower id (TrimSpace ''Text/HTML '') = to_lower id ''text/html''" by code_simp
  then show ?thesis
    by (subst content_type_parameters_ignored) auto
qed

end
