(* ===== verification/Lru_List.thy ===== *)
theory Lru_List
  imports Go_Prelude
begin

text \<open>
  \<^verbatim>\<open>internal/cache/lru.go\<close>: the recency list. Go's \<^verbatim>\<open>container/list\<close> is a list of elements with
  pointer identity, front first, and \<^verbatim>\<open>keys\<close> maps a key to its element; a pointer is a number
  here, \<open>lr_next\<close> being the next unused one. The interface the cache relies on is the locale
  \<open>recency_list\<close>: what each operation does to the sequence of keys, most recent first.
\<close>

section \<open>The list\<close>

type_synonym element = "nat \<times> string"

record lruList =
  lr_l :: "element list"
  lr_keys :: "(string, nat) gomap"
  lr_next :: nat

definition newLRUList :: lruList where
  "newLRUList = \<lparr>lr_l = [], lr_keys = [], lr_next = 0\<rparr>"

text \<open>\<^verbatim>\<open>list.MoveToFront\<close> and \<^verbatim>\<open>list.Remove\<close> of the element with a given identity.\<close>

definition move_to_front :: "nat \<Rightarrow> element list \<Rightarrow> element list" where
  "move_to_front el l =
     (case find (\<lambda>p. fst p = el) l of
        None \<Rightarrow> l
      | Some p \<Rightarrow> p # filter (\<lambda>q. fst q \<noteq> el) l)"

definition list_remove :: "nat \<Rightarrow> element list \<Rightarrow> element list" where
  "list_remove el l = filter (\<lambda>q. fst q \<noteq> el) l"

definition lru_touch :: "string \<Rightarrow> lruList \<Rightarrow> lruList" where
  "lru_touch key r =
     (case map_of (lr_keys r) key of
        None \<Rightarrow> r
      | Some el \<Rightarrow> r\<lparr>lr_l := move_to_front el (lr_l r)\<rparr>)"

definition lru_add :: "string \<Rightarrow> lruList \<Rightarrow> lruList" where
  "lru_add key r =
     (let el = lr_next r in
      r\<lparr>lr_l := (el, key) # lr_l r, lr_keys := AList.update key el (lr_keys r), lr_next := Suc el\<rparr>)"

definition lru_remove :: "string \<Rightarrow> lruList \<Rightarrow> lruList" where
  "lru_remove key r =
     (case map_of (lr_keys r) key of
        None \<Rightarrow> r
      | Some el \<Rightarrow>
          r\<lparr>lr_l := list_remove el (lr_l r), lr_keys := AList.delete key (lr_keys r)\<rparr>)"

definition lru_evictOldest :: "lruList \<Rightarrow> string \<times> lruList" where
  "lru_evictOldest r =
     (if lr_l r = [] then ('''', r)
      else let (el, key) = last (lr_l r) in
        (key, r\<lparr>lr_l := list_remove el (lr_l r), lr_keys := AList.delete key (lr_keys r)\<rparr>))"

definition lru_len :: "lruList \<Rightarrow> nat" where
  "lru_len r = length (lr_l r)"

section \<open>Invariant and abstraction\<close>

definition lru_order :: "lruList \<Rightarrow> string list" where
  "lru_order r = map snd (lr_l r)"

definition lru_ok :: "lruList \<Rightarrow> bool" where
  "lru_ok r \<longleftrightarrow>
     distinct (map fst (lr_l r)) \<and> distinct (map snd (lr_l r)) \<and> gomap_ok (lr_keys r) \<and>
     (\<forall>k el. map_of (lr_keys r) k = Some el \<longleftrightarrow> (el, k) \<in> set (lr_l r)) \<and>
     (\<forall>p \<in> set (lr_l r). fst p < lr_next r)"

lemma lru_okI:
  assumes "distinct (map fst (lr_l r))" "distinct (map snd (lr_l r))" "gomap_ok (lr_keys r)"
    and "\<And>k el. map_of (lr_keys r) k = Some el \<longleftrightarrow> (el, k) \<in> set (lr_l r)"
    and "\<And>p. p \<in> set (lr_l r) \<Longrightarrow> fst p < lr_next r"
  shows "lru_ok r"
  using assms by (auto simp: lru_ok_def)

lemma lru_ok_lookup: "lru_ok r \<Longrightarrow> map_of (lr_keys r) k = Some el \<longleftrightarrow> (el, k) \<in> set (lr_l r)"
  by (auto simp: lru_ok_def)

lemma lru_ok_lookup_None: "lru_ok r \<Longrightarrow> map_of (lr_keys r) k = None \<longleftrightarrow> k \<notin> set (lru_order r)"
proof -
  assume ok: "lru_ok r"
  have "k \<in> set (lru_order r) \<longleftrightarrow> (\<exists>el. (el, k) \<in> set (lr_l r))"
    unfolding lru_order_def by force
  also have "\<dots> \<longleftrightarrow> map_of (lr_keys r) k \<noteq> None"
    using lru_ok_lookup [OF ok] by blast
  finally show ?thesis by blast
qed

text \<open>In a list with distinct identities and distinct keys, an element is removed by its key.\<close>

lemma map_snd_remove:
  assumes "distinct (map fst l)" "distinct (map snd l)" "(el, k) \<in> set l"
  shows "map snd (list_remove el l) = removeAll k (map snd l)"
  using assms
proof (induction l)
  case Nil
  then show ?case by simp
next
  case (Cons p l)
  obtain el' k' where p: "p = (el', k')" by (cases p)
  show ?case
  proof (cases "el' = el")
    case True
    then have "k' = k" using Cons.prems p by (auto simp: image_iff)
    moreover have "list_remove el l = l"
      using True Cons.prems(1) p by (auto simp: list_remove_def filter_id_conv image_iff)
    moreover have "removeAll k (map snd l) = map snd l"
      using Cons.prems(2) p \<open>k' = k\<close> by (simp add: removeAll_id)
    ultimately show ?thesis using True p by (simp add: list_remove_def)
  next
    case False
    then have "k' \<noteq> k" using Cons.prems p by (auto simp: image_iff)
    with False Cons p show ?thesis by (simp add: list_remove_def)
  qed
qed

lemma find_fst:
  assumes "distinct (map fst l)" "(el, k) \<in> set l"
  shows "find (\<lambda>p. fst p = el) l = Some (el, k)"
  using assms by (induction l) (auto simp: image_iff)

lemma lru_ok_elem:
  assumes "lru_ok r" "(el, k) \<in> set (lr_l r)"
  shows "map snd (list_remove el (lr_l r)) = removeAll k (lru_order r)"
    and "find (\<lambda>p. fst p = el) (lr_l r) = Some (el, k)"
    and "set (list_remove el (lr_l r)) = set (lr_l r) - {(el, k)}"
proof -
  have d: "distinct (map fst (lr_l r))" "distinct (map snd (lr_l r))"
    using assms(1) by (simp_all add: lru_ok_def)
  show "map snd (list_remove el (lr_l r)) = removeAll k (lru_order r)"
    unfolding lru_order_def by (rule map_snd_remove [OF d assms(2)])
  show "find (\<lambda>p. fst p = el) (lr_l r) = Some (el, k)"
    by (rule find_fst [OF d(1) assms(2)])
  show "set (list_remove el (lr_l r)) = set (lr_l r) - {(el, k)}"
  proof
    show "set (list_remove el (lr_l r)) \<subseteq> set (lr_l r) - {(el, k)}"
      by (auto simp: list_remove_def)
    show "set (lr_l r) - {(el, k)} \<subseteq> set (list_remove el (lr_l r))"
      using eq_key_imp_eq_value [OF d(1) assms(2)] by (fastforce simp: list_remove_def)
  qed
qed

lemma lru_ok_drop:
  assumes ok: "lru_ok r" and el: "(el, k) \<in> set (lr_l r)"
  shows "lru_ok (r\<lparr>lr_l := list_remove el (lr_l r), lr_keys := AList.delete k (lr_keys r)\<rparr>)"
proof (rule lru_okI)
  let ?r = "r\<lparr>lr_l := list_remove el (lr_l r), lr_keys := AList.delete k (lr_keys r)\<rparr>"
  show "distinct (map fst (lr_l ?r))" "distinct (map snd (lr_l ?r))" "gomap_ok (lr_keys ?r)"
    using ok by (auto simp: lru_ok_def list_remove_def distinct_map_filter)
  show "fst p < lr_next ?r" if "p \<in> set (lr_l ?r)" for p
    using that ok by (auto simp: lru_ok_def list_remove_def)
  have inj: "el'' = el" if "(el'', k) \<in> set (lr_l r)" for el''
    using that el ok lru_ok_lookup [OF ok] by (metis option.inject)
  show "map_of (lr_keys ?r) k' = Some el' \<longleftrightarrow> (el', k') \<in> set (lr_l ?r)" for k' el'
    using lru_ok_elem(3) [OF ok el] lru_ok_lookup [OF ok] inj by auto
qed

lemma lru_ok_new: "lru_ok newLRUList"
  by (simp add: lru_ok_def newLRUList_def)

lemma lru_order_new: "lru_order newLRUList = []"
  by (simp add: lru_order_def newLRUList_def)

lemma lru_ok_touch: "lru_ok r \<Longrightarrow> lru_ok (lru_touch k r)"
proof (cases "map_of (lr_keys r) k")
  case None
  then show "lru_ok r \<Longrightarrow> ?thesis" by (simp add: lru_touch_def)
next
  case (Some el)
  assume ok: "lru_ok r"
  with Some have el: "(el, k) \<in> set (lr_l r)" by (simp add: lru_ok_lookup)
  let ?l = "(el, k) # list_remove el (lr_l r)"
  have "lru_touch k r = r\<lparr>lr_l := ?l\<rparr>"
    using Some lru_ok_elem(2) [OF ok el]
    by (simp add: lru_touch_def move_to_front_def list_remove_def)
  moreover have "lru_ok (r\<lparr>lr_l := ?l\<rparr>)"
  proof (rule lru_okI)
    let ?r = "r\<lparr>lr_l := ?l\<rparr>"
    have set: "set ?l = set (lr_l r)" using lru_ok_elem(3) [OF ok el] el by auto
    show "distinct (map fst (lr_l ?r))"
      using ok by (auto simp: lru_ok_def list_remove_def distinct_map_filter)
    show "distinct (map snd (lr_l ?r))"
      using ok lru_ok_elem(1) [OF ok el] by (simp add: lru_ok_def lru_order_def distinct_removeAll)
    show "gomap_ok (lr_keys ?r)" using ok by (simp add: lru_ok_def)
    show "map_of (lr_keys ?r) k' = Some el' \<longleftrightarrow> (el', k') \<in> set (lr_l ?r)" for k' el'
      using lru_ok_lookup [OF ok] set by simp
    show "fst p < lr_next ?r" if "p \<in> set (lr_l ?r)" for p
      using that set ok by (auto simp: lru_ok_def)
  qed
  ultimately show ?thesis by simp
qed

lemma lru_order_touch:
  assumes ok: "lru_ok r"
  shows "lru_order (lru_touch k r) =
    (if k \<in> set (lru_order r) then k # removeAll k (lru_order r) else lru_order r)"
proof (cases "map_of (lr_keys r) k")
  case None
  with ok have "k \<notin> set (lru_order r)" by (simp add: lru_ok_lookup_None)
  with None show ?thesis by (simp add: lru_touch_def)
next
  case (Some el)
  with ok have el: "(el, k) \<in> set (lr_l r)" by (simp add: lru_ok_lookup)
  moreover have "k \<in> set (lru_order r)" using el by (force simp: lru_order_def)
  ultimately show ?thesis
    using Some lru_ok_elem [OF ok el]
    by (simp add: lru_touch_def move_to_front_def list_remove_def lru_order_def)
qed

lemma lru_ok_add:
  assumes ok: "lru_ok r" and k: "k \<notin> set (lru_order r)"
  shows "lru_ok (lru_add k r)"
proof (rule lru_okI)
  have fresh: "(lr_next r, k') \<notin> set (lr_l r)" for k'
    using ok by (auto simp: lru_ok_def)
  show "distinct (map fst (lr_l (lru_add k r)))"
    using ok fresh by (auto simp: lru_ok_def lru_add_def Let_def)
  show "distinct (map snd (lr_l (lru_add k r)))"
    using ok k by (auto simp: lru_ok_def lru_add_def lru_order_def Let_def)
  show "gomap_ok (lr_keys (lru_add k r))"
    using ok by (simp add: lru_ok_def lru_add_def Let_def)
  show "map_of (lr_keys (lru_add k r)) k' = Some el' \<longleftrightarrow> (el', k') \<in> set (lr_l (lru_add k r))"
    for k' el'
    using lru_ok_lookup [OF ok] k fresh by (auto simp: lru_add_def lru_order_def Let_def image_iff)
  show "fst p < lr_next (lru_add k r)" if "p \<in> set (lr_l (lru_add k r))" for p
    using that ok by (auto simp: lru_ok_def lru_add_def Let_def less_SucI)
qed

lemma lru_order_add: "lru_order (lru_add k r) = k # lru_order r"
  by (simp add: lru_order_def lru_add_def Let_def)

lemma lru_remove_absent: "lru_ok r \<Longrightarrow> k \<notin> set (lru_order r) \<Longrightarrow> lru_remove k r = r"
  by (simp add: lru_remove_def lru_ok_lookup_None [symmetric])

lemma lru_ok_remove: "lru_ok r \<Longrightarrow> lru_ok (lru_remove k r)"
  by (auto simp: lru_remove_def lru_ok_lookup lru_ok_drop split: option.splits)

lemma lru_order_remove:
  assumes ok: "lru_ok r"
  shows "lru_order (lru_remove k r) = removeAll k (lru_order r)"
proof (cases "map_of (lr_keys r) k")
  case None
  with ok have "k \<notin> set (lru_order r)" by (simp add: lru_ok_lookup_None)
  with None show ?thesis by (simp add: lru_remove_def removeAll_id)
next
  case (Some el)
  with ok have "(el, k) \<in> set (lr_l r)" by (simp add: lru_ok_lookup)
  with Some lru_ok_elem(1) [OF ok this] show ?thesis
    by (simp add: lru_remove_def lru_order_def)
qed

lemma lru_evict_empty: "lru_order r = [] \<Longrightarrow> lru_evictOldest r = ('''', r)"
  by (simp add: lru_evictOldest_def lru_order_def)

lemma lru_evict_last:
  assumes ok: "lru_ok r" and ne: "lru_order r \<noteq> []"
  shows "fst (lru_evictOldest r) = last (lru_order r)"
    and "lru_order (snd (lru_evictOldest r)) = butlast (lru_order r)"
    and "lru_ok (snd (lru_evictOldest r))"
proof -
  from ne have l: "lr_l r \<noteq> []" by (simp add: lru_order_def)
  obtain el k where last: "last (lr_l r) = (el, k)" by fastforce
  with l have el: "(el, k) \<in> set (lr_l r)" by (metis last_in_set)
  have k: "last (lru_order r) = k" using l last by (simp add: lru_order_def last_map)
  show "fst (lru_evictOldest r) = last (lru_order r)"
    using l last k by (simp add: lru_evictOldest_def)
  have "distinct (lru_order r)" using ok by (simp add: lru_ok_def lru_order_def)
  then have "k \<notin> set (butlast (lru_order r))"
    using k ne by (metis append_butlast_last_id distinct_append disjoint_insert(1) list.simps(15))
  then have "removeAll k (lru_order r) = butlast (lru_order r)"
    using k ne by (metis append_Nil2 append_butlast_last_id removeAll.simps removeAll_append removeAll_id)
  with lru_ok_elem(1) [OF ok el] l last
  show "lru_order (snd (lru_evictOldest r)) = butlast (lru_order r)"
    by (simp add: lru_evictOldest_def lru_order_def)
  show "lru_ok (snd (lru_evictOldest r))"
    using l last lru_ok_drop [OF ok el] by (simp add: lru_evictOldest_def)
qed

section \<open>The interface\<close>

text \<open>
  What a client of a recency list may assume. \<open>order\<close> is the abstraction: the keys, most recently
  used first.
\<close>

locale recency_list =
  fixes invar :: "'r \<Rightarrow> bool"
    and order :: "'r \<Rightarrow> 'k list"
    and empty :: 'r
    and touch :: "'k \<Rightarrow> 'r \<Rightarrow> 'r"
    and add :: "'k \<Rightarrow> 'r \<Rightarrow> 'r"
    and remove :: "'k \<Rightarrow> 'r \<Rightarrow> 'r"
    and evict :: "'r \<Rightarrow> 'k \<times> 'r"
  assumes invar_empty: "invar empty"
    and order_empty: "order empty = []"
    and order_distinct: "invar r \<Longrightarrow> distinct (order r)"
    and invar_touch: "invar r \<Longrightarrow> invar (touch k r)"
    and order_touch: "invar r \<Longrightarrow>
      order (touch k r) = (if k \<in> set (order r) then k # removeAll k (order r) else order r)"
    and invar_add: "invar r \<Longrightarrow> k \<notin> set (order r) \<Longrightarrow> invar (add k r)"
    and order_add: "invar r \<Longrightarrow> k \<notin> set (order r) \<Longrightarrow> order (add k r) = k # order r"
    and invar_remove: "invar r \<Longrightarrow> invar (remove k r)"
    and order_remove: "invar r \<Longrightarrow> order (remove k r) = removeAll k (order r)"
    and evict_key: "invar r \<Longrightarrow> order r \<noteq> [] \<Longrightarrow> fst (evict r) = last (order r)"
    and invar_evict: "invar r \<Longrightarrow> order r \<noteq> [] \<Longrightarrow> invar (snd (evict r))"
    and order_evict: "invar r \<Longrightarrow> order r \<noteq> [] \<Longrightarrow> order (snd (evict r)) = butlast (order r)"
begin

lemma set_touch: "invar r \<Longrightarrow> set (order (touch k r)) = set (order r)"
  by (auto simp: order_touch)

lemma set_add: "invar r \<Longrightarrow> k \<notin> set (order r) \<Longrightarrow> set (order (add k r)) = insert k (set (order r))"
  by (simp add: order_add)

lemma set_remove: "invar r \<Longrightarrow> set (order (remove k r)) = set (order r) - {k}"
  by (simp add: order_remove)

lemma evict_member: "invar r \<Longrightarrow> order r \<noteq> [] \<Longrightarrow> fst (evict r) \<in> set (order r)"
  by (simp add: evict_key)

lemma set_evict:
  assumes "invar r" "order r \<noteq> []"
  shows "set (order (snd (evict r))) = set (order r) - {fst (evict r)}"
proof -
  obtain ks k where ks: "order r = ks @ [k]" using assms(2) by (cases "order r" rule: rev_cases) auto
  then have "k \<notin> set ks" using order_distinct [OF assms(1)] by simp
  then show ?thesis using ks assms by (auto simp: order_evict evict_key)
qed

lemma touch_moves_to_front: "invar r \<Longrightarrow> k \<in> set (order r) \<Longrightarrow> hd (order (touch k r)) = k"
  by (simp add: order_touch)

text \<open>Repeated eviction shortens the order from its old end.\<close>

lemma evict_many:
  "invar r \<Longrightarrow> n \<le> length (order r) \<Longrightarrow>
   invar (((\<lambda>q. snd (evict q)) ^^ n) r) \<and>
   order (((\<lambda>q. snd (evict q)) ^^ n) r) = take (length (order r) - n) (order r)"
proof (induction n)
  case 0
  then show ?case by simp
next
  case (Suc n)
  let ?r = "((\<lambda>q. snd (evict q)) ^^ n) r"
  from Suc have IH: "invar ?r" "order ?r = take (length (order r) - n) (order r)" by simp_all
  then have "order ?r \<noteq> []" using Suc.prems by auto
  with IH have "invar (snd (evict ?r))" "order (snd (evict ?r)) = butlast (order ?r)"
    by (simp_all add: invar_evict order_evict)
  then show ?case using IH Suc.prems
    by (simp add: butlast_take)
qed

end

interpretation lru: recency_list lru_ok lru_order newLRUList lru_touch lru_add lru_remove
  lru_evictOldest
  by unfold_locales
    (auto simp: lru_ok_new lru_order_new lru_ok_touch lru_order_touch lru_ok_add lru_order_add
      lru_ok_remove lru_order_remove lru_evict_last, simp add: lru_ok_def lru_order_def)

lemmas lru_ops =
  lru.invar_empty lru.order_empty lru.invar_touch lru.order_touch lru.invar_add lru.order_add
  lru.invar_remove lru.order_remove lru.invar_evict lru.order_evict

lemma lru_evict_shrinks:
  "lr_l r \<noteq> [] \<Longrightarrow> length (lr_l (snd (lru_evictOldest r))) < length (lr_l r)"
proof -
  assume l: "lr_l r \<noteq> []"
  obtain el k where last: "last (lr_l r) = (el, k)" by fastforce
  have "last (lr_l r) \<in> set (lr_l r)" using l by simp
  then have "length (list_remove el (lr_l r)) < length (lr_l r)"
    unfolding list_remove_def by (rule length_filter_less) (simp add: last)
  then show ?thesis using l last by (simp add: lru_evictOldest_def)
qed

end
