(* ===== verification/Resp_Cache.thy ===== *)
theory Resp_Cache
  imports Go_Net Lru_List
begin

text \<open>
  \<^verbatim>\<open>internal/cache/cache.go\<close>: the bounded LRU response cache. Its state is the entry map, the
  recency list of \<^verbatim>\<open>lru.go\<close>, the running byte total and the limits. The mutex makes every
  operation atomic, so concurrent use is a sequence of operations; the clock is the argument
  \<open>now\<close>, in nanoseconds. Byte totals count bytes held in memory, so their sums stay far below
  the range of \<open>int64\<close> and are kept as integers.

  The abstract cache is a list of key/entry pairs, most recently used first; the last part shows
  that the code refines it.
\<close>

section \<open>State\<close>

record Entry =
  en_Method :: string
  en_URL :: string
  en_StatusCode :: int
  en_Header :: header
  en_Body :: string
  en_StoredAt :: int
  en_ExpiresAt :: int
  en_ETag :: string
  en_LastModified :: string
  en_BodySize :: int

record cache_config =
  cf_MaxEntries :: int
  cf_MaxBytes :: int
  cf_MaxEntryBytes :: int
  cf_DefaultTTLSeconds :: int
  cf_CachePrivate :: bool
  cf_CacheWithCookies :: bool
  cf_CacheWithAuthorization :: bool

record cache =
  ch_entries :: "(string, Entry) gomap"
  ch_lru :: lruList
  ch_totalBytes :: int
  ch_cfg :: cache_config

definition cache_New :: "cache_config \<Rightarrow> cache" where
  "cache_New cfg =
     \<lparr>ch_entries = [], ch_lru = newLRUList, ch_totalBytes = 0, ch_cfg = cfg\<rparr>"

section \<open>Operations\<close>

definition cache_drop :: "string \<Rightarrow> cache \<Rightarrow> cache" where
  "cache_drop key c =
     (let c1 = (case map_of (ch_entries c) key of
                  None \<Rightarrow> c
                | Some e \<Rightarrow>
                    c\<lparr>ch_totalBytes := ch_totalBytes c - en_BodySize e,
                      ch_entries := AList.delete key (ch_entries c)\<rparr>)
      in c1\<lparr>ch_lru := lru_remove key (ch_lru c1)\<rparr>)"

definition cache_Get :: "string \<Rightarrow> int \<Rightarrow> cache \<Rightarrow> Entry option \<times> cache" where
  "cache_Get key now c =
     (case map_of (ch_entries c) key of
        None \<Rightarrow> (None, c)
      | Some e \<Rightarrow>
          if now > en_ExpiresAt e then (None, cache_drop key c)
          else (Some e, c\<lparr>ch_lru := lru_touch key (ch_lru c)\<rparr>))"

definition too_many :: "cache \<Rightarrow> bool" where
  "too_many c \<longleftrightarrow> cf_MaxEntries (ch_cfg c) > 0 \<and> int (length (ch_entries c)) \<ge> cf_MaxEntries (ch_cfg c)"

definition too_big :: "int \<Rightarrow> cache \<Rightarrow> bool" where
  "too_big n c \<longleftrightarrow> cf_MaxBytes (ch_cfg c) > 0 \<and> ch_totalBytes c + n > cf_MaxBytes (ch_cfg c)"

text \<open>
  The eviction loop of \<^verbatim>\<open>Put\<close>, with both of its exits: the limits are satisfied, or the recency
  list reports the empty key.
\<close>

function evict_loop :: "int \<Rightarrow> cache \<Rightarrow> cache" where
  "evict_loop n c =
     (if \<not> too_many c \<and> \<not> too_big n c then c
      else let (oldest, r) = lru_evictOldest (ch_lru c); c1 = c\<lparr>ch_lru := r\<rparr> in
        if oldest = '''' then c1
        else evict_loop n
          (case map_of (ch_entries c1) oldest of
             None \<Rightarrow> c1
           | Some old \<Rightarrow>
               c1\<lparr>ch_totalBytes := ch_totalBytes c1 - en_BodySize old,
                  ch_entries := AList.delete oldest (ch_entries c1)\<rparr>))"
  by pat_completeness auto
termination
proof (relation "measure (\<lambda>(n, c). length (lr_l (ch_lru c)))")
  show "wf (measure (\<lambda>(n::int, c). length (lr_l (ch_lru c))))" by simp
next
  fix n c x oldest r c1
  assume x: "x = lru_evictOldest (ch_lru c)" "(oldest, r) = x"
    and c1: "c1 = c\<lparr>ch_lru := r\<rparr>" and ne: "oldest \<noteq> ''''"
  have "lr_l (ch_lru c) \<noteq> []"
    using x ne by (auto simp: lru_evictOldest_def split: if_splits)
  then have "length (lr_l r) < length (lr_l (ch_lru c))"
    using lru_evict_shrinks [of "ch_lru c"] x by (metis snd_conv)
  then show "((n, case map_of (ch_entries c1) oldest of
             None \<Rightarrow> c1
           | Some old \<Rightarrow>
               c1\<lparr>ch_totalBytes := ch_totalBytes c1 - en_BodySize old,
                  ch_entries := AList.delete oldest (ch_entries c1)\<rparr>), n, c)
    \<in> measure (\<lambda>(n, c). length (lr_l (ch_lru c)))"
    using c1 by (auto split: option.splits)
qed

declare evict_loop.simps [simp del]

text \<open>
  \<^verbatim>\<open>Put\<close> returns the new cache and the caller's entry, whose \<^verbatim>\<open>BodySize\<close> it sets. What is stored
  is a copy of that entry with its own body.
\<close>

definition cache_Put :: "string \<Rightarrow> Entry \<Rightarrow> cache \<Rightarrow> cache \<times> Entry" where
  "cache_Put key e c =
     (let entryBytes = int (length (en_Body e)) in
      if cf_MaxEntryBytes (ch_cfg c) > 0 \<and> entryBytes > cf_MaxEntryBytes (ch_cfg c) then (c, e)
      else
        let c1 = (case map_of (ch_entries c) key of
                    None \<Rightarrow> c
                  | Some old \<Rightarrow>
                      c\<lparr>ch_totalBytes := ch_totalBytes c - en_BodySize old,
                        ch_lru := lru_remove key (ch_lru c),
                        ch_entries := AList.delete key (ch_entries c)\<rparr>);
            c2 = evict_loop entryBytes c1;
            stored = e\<lparr>en_BodySize := entryBytes\<rparr>
        in (c2\<lparr>ch_entries := AList.update key stored (ch_entries c2),
               ch_lru := lru_add key (ch_lru c2),
               ch_totalBytes := ch_totalBytes c2 + entryBytes\<rparr>, stored))"

definition cache_Len :: "cache \<Rightarrow> nat" where
  "cache_Len c = length (ch_entries c)"

definition cache_TotalBytes :: "cache \<Rightarrow> int" where
  "cache_TotalBytes c = ch_totalBytes c"

section \<open>Invariant\<close>

text \<open>
  The three parts of the state agree: the recency list holds exactly the stored keys, the total is
  the sum of the body sizes, every recorded size is the length of its body, and the key that the
  recency list uses for \<open>nothing to evict\<close> is not stored.
\<close>

definition cache_ok :: "cache \<Rightarrow> bool" where
  "cache_ok c \<longleftrightarrow>
     gomap_ok (ch_entries c) \<and> lru_ok (ch_lru c) \<and>
     set (lru_order (ch_lru c)) = fst ` set (ch_entries c) \<and>
     ch_totalBytes c = sum_list (map (en_BodySize \<circ> snd) (ch_entries c)) \<and>
     (\<forall>p \<in> set (ch_entries c). fst p \<noteq> '''' \<and> en_BodySize (snd p) = int (length (en_Body (snd p))))"

lemma cache_okD:
  assumes "cache_ok c"
  shows "gomap_ok (ch_entries c)" "lru_ok (ch_lru c)"
    "set (lru_order (ch_lru c)) = fst ` set (ch_entries c)"
    "ch_totalBytes c = sum_list (map (en_BodySize \<circ> snd) (ch_entries c))"
    "\<And>k e. map_of (ch_entries c) k = Some e \<Longrightarrow>
       k \<noteq> '''' \<and> en_BodySize e = int (length (en_Body e))"
proof -
  show "gomap_ok (ch_entries c)" "lru_ok (ch_lru c)"
    "set (lru_order (ch_lru c)) = fst ` set (ch_entries c)"
    "ch_totalBytes c = sum_list (map (en_BodySize \<circ> snd) (ch_entries c))"
    using assms by (simp_all add: cache_ok_def)
  show "k \<noteq> '''' \<and> en_BodySize e = int (length (en_Body e))"
    if "map_of (ch_entries c) k = Some e" for k e
    using map_of_SomeD [OF that] assms by (force simp: cache_ok_def)
qed

lemma lru_total_commute:
  "c\<lparr>ch_lru := r, ch_totalBytes := t, ch_entries := m\<rparr>
   = c\<lparr>ch_totalBytes := t, ch_lru := r, ch_entries := m\<rparr>"
  by (cases c) simp

lemma cache_ok_New: "cache_ok (cache_New cfg)"
  by (simp add: cache_ok_def cache_New_def lru_ops)

lemma set_delete_keys: "fst ` set (AList.delete k m) = fst ` set m - {k}"
  by (simp add: gomap_dom [symmetric])

lemma set_update_keys: "fst ` set (AList.update k v m) = insert k (fst ` set m)"
  by (simp add: gomap_dom [symmetric])

lemma map_of_Some_key: "map_of m k = Some v \<Longrightarrow> k \<in> fst ` set m"
  by (metis domI gomap_dom)

text \<open>Removing a stored key from all three parts, by whichever list operation, keeps the invariant.\<close>

lemma cache_ok_removed:
  assumes ok: "cache_ok c" and e: "map_of (ch_entries c) k = Some e"
    and r: "lru_ok r" "set (lru_order r) = set (lru_order (ch_lru c)) - {k}"
  shows "cache_ok (c\<lparr>ch_totalBytes := ch_totalBytes c - en_BodySize e, ch_lru := r,
    ch_entries := AList.delete k (ch_entries c)\<rparr>)"
  using cache_okD(1-4) [OF ok] e r sum_list_delete [OF cache_okD(1) [OF ok] e, of en_BodySize]
    set_delete_subset [of k "ch_entries c"] ok
  by (auto simp: cache_ok_def set_delete_keys)

lemma cache_ok_drop: "cache_ok c \<Longrightarrow> cache_ok (cache_drop k c)"
proof (cases "map_of (ch_entries c) k")
  case None
  assume ok: "cache_ok c"
  have "k \<notin> set (lru_order (ch_lru c))"
    using cache_okD(3) [OF ok] None by (metis gomap_dom domIff)
  then show ?thesis
    using None ok cache_okD(2) [OF ok] by (simp add: cache_drop_def Let_def lru_remove_absent)
next
  case (Some e)
  assume ok: "cache_ok c"
  have "cache_drop k c = c\<lparr>ch_totalBytes := ch_totalBytes c - en_BodySize e,
      ch_lru := lru_remove k (ch_lru c), ch_entries := AList.delete k (ch_entries c)\<rparr>"
    using Some by (simp add: cache_drop_def Let_def)
  then show ?thesis
    using cache_ok_removed [OF ok Some] cache_okD(2) [OF ok] by (simp add: lru_ops)
qed

lemma cache_ok_touch:
  assumes "cache_ok c" shows "cache_ok (c\<lparr>ch_lru := lru_touch k (ch_lru c)\<rparr>)"
  using assms by (auto simp: cache_ok_def lru_ops lru.set_touch)

lemma cache_ok_Get: "cache_ok c \<Longrightarrow> cache_ok (snd (cache_Get k now c))"
  by (simp add: cache_Get_def cache_ok_drop cache_ok_touch split: option.splits)

text \<open>One turn of the eviction loop, from a state that satisfies the invariant.\<close>

definition evict_one :: "cache \<Rightarrow> cache" where
  "evict_one c =
     (let k = last (lru_order (ch_lru c)) in
      c\<lparr>ch_totalBytes := ch_totalBytes c - en_BodySize (the (map_of (ch_entries c) k)),
        ch_lru := snd (lru_evictOldest (ch_lru c)),
        ch_entries := AList.delete k (ch_entries c)\<rparr>)"

lemma oldest_stored:
  assumes ok: "cache_ok c" and ne: "lru_order (ch_lru c) \<noteq> []"
  obtains e where "map_of (ch_entries c) (last (lru_order (ch_lru c))) = Some e"
    and "last (lru_order (ch_lru c)) \<noteq> ''''"
proof -
  have "last (lru_order (ch_lru c)) \<in> fst ` set (ch_entries c)"
    using cache_okD(3) [OF ok] ne last_in_set by blast
  then obtain e where "map_of (ch_entries c) (last (lru_order (ch_lru c))) = Some e"
    by (metis domD gomap_dom)
  with that cache_okD(5) [OF ok] show thesis by blast
qed

lemma cache_ok_evict_one:
  assumes ok: "cache_ok c" and ne: "lru_order (ch_lru c) \<noteq> []"
  shows "cache_ok (evict_one c)"
proof -
  obtain e where e: "map_of (ch_entries c) (last (lru_order (ch_lru c))) = Some e"
    using oldest_stored [OF ok ne] .
  show ?thesis
    using cache_ok_removed [OF ok e, of "snd (lru_evictOldest (ch_lru c))"]
      cache_okD(2) [OF ok] ne e lru.set_evict [of "ch_lru c"]
    by (simp add: evict_one_def Let_def lru_ops lru.evict_key)
qed

lemma evict_loop_step:
  assumes ok: "cache_ok c"
  shows "evict_loop n c =
    (if (\<not> too_many c \<and> \<not> too_big n c) \<or> lru_order (ch_lru c) = [] then c
     else evict_loop n (evict_one c))"
proof (cases "lru_order (ch_lru c) = []")
  case True
  then show ?thesis
    by (subst evict_loop.simps) (simp add: lru_evict_empty Let_def)
next
  case False
  obtain e where e: "map_of (ch_entries c) (last (lru_order (ch_lru c))) = Some e"
    and key: "last (lru_order (ch_lru c)) \<noteq> ''''"
    using oldest_stored [OF ok False] .
  obtain oldest r where ev: "lru_evictOldest (ch_lru c) = (oldest, r)" by fastforce
  have "oldest = last (lru_order (ch_lru c))"
    using lru_evict_last(1) [OF cache_okD(2) [OF ok] False] ev by simp
  with False e key ev show ?thesis
    by (subst evict_loop.simps) (simp add: evict_one_def Let_def lru_total_commute)
qed

lemma cfg_evict_one [simp]: "ch_cfg (evict_one c) = ch_cfg c"
  by (simp add: evict_one_def Let_def)

text \<open>Induction over the loop, for states that satisfy the invariant.\<close>

lemma evict_loop_induct [consumes 1, case_names exit empty evict]:
  assumes ok: "cache_ok c"
    and exit: "\<And>c. cache_ok c \<Longrightarrow> \<not> too_many c \<Longrightarrow> \<not> too_big n c \<Longrightarrow> P c c"
    and empty: "\<And>c. cache_ok c \<Longrightarrow> too_many c \<or> too_big n c \<Longrightarrow> lru_order (ch_lru c) = [] \<Longrightarrow> P c c"
    and evict: "\<And>c. cache_ok c \<Longrightarrow> too_many c \<or> too_big n c \<Longrightarrow> lru_order (ch_lru c) \<noteq> [] \<Longrightarrow>
      cache_ok (evict_one c) \<Longrightarrow> P (evict_one c) (evict_loop n (evict_one c)) \<Longrightarrow>
      P c (evict_loop n (evict_one c))"
  shows "P c (evict_loop n c)"
  using ok
proof (induction "length (lru_order (ch_lru c))" arbitrary: c rule: less_induct)
  case less
  note step = evict_loop_step [OF less.prems, of n]
  consider "\<not> too_many c" "\<not> too_big n c"
    | "too_many c \<or> too_big n c" "lru_order (ch_lru c) = []"
    | "too_many c \<or> too_big n c" "lru_order (ch_lru c) \<noteq> []" by blast
  then show ?case
  proof cases
    case 1
    with step exit less.prems show ?thesis by simp
  next
    case 2
    with step empty less.prems show ?thesis by simp
  next
    case 3
    have ok': "cache_ok (evict_one c)" by (rule cache_ok_evict_one [OF less.prems 3(2)])
    have "length (lru_order (ch_lru (evict_one c))) < length (lru_order (ch_lru c))"
      using 3(2) cache_okD(2) [OF less.prems] by (simp add: evict_one_def Let_def lru_ops)
    with less.hyps ok' evict [OF less.prems 3 ok'] step 3 show ?thesis by auto
  qed
qed

lemma evict_loop_facts:
  assumes "cache_ok c"
  shows "cache_ok (evict_loop n c) \<and> ch_cfg (evict_loop n c) = ch_cfg c \<and>
    fst ` set (ch_entries (evict_loop n c)) \<subseteq> fst ` set (ch_entries c) \<and>
    set (ch_entries (evict_loop n c)) \<subseteq> set (ch_entries c)"
  using assms
proof (induction rule: evict_loop_induct)
  case (evict c)
  have "set (ch_entries (evict_one c)) \<subseteq> set (ch_entries c)"
    by (simp add: evict_one_def Let_def set_delete_subset)
  with evict show ?case by auto
qed simp_all

text \<open>When the loop ends, the limits are satisfied or nothing is stored.\<close>

lemma evict_loop_post:
  assumes "cache_ok c"
  shows "\<not> too_many (evict_loop n c) \<and> \<not> too_big n (evict_loop n c)
    \<or> ch_entries (evict_loop n c) = []"
  using assms
proof (induction rule: evict_loop_induct)
  case (empty c)
  with cache_okD(3) [OF empty(1)] show ?case by simp
qed simp_all

lemma Len_evict_one:
  assumes ok: "cache_ok c" and ne: "lru_order (ch_lru c) \<noteq> []"
  shows "cache_Len c = Suc (cache_Len (evict_one c))"
proof -
  let ?k = "last (lru_order (ch_lru c))" and ?m = "ch_entries c"
  have "?k \<in> fst ` set ?m" using cache_okD(3) [OF ok] ne last_in_set by blast
  then have "?k \<in> dom (map_of ?m)" by (simp add: gomap_dom)
  moreover have "gomap_ok ?m" by (rule cache_okD(1) [OF ok])
  moreover have "dom (map_of (AList.delete ?k ?m)) = dom (map_of ?m) - {?k}"
    by (auto simp: delete_conv dom_def)
  moreover have "finite (dom (map_of ?m))" by (rule finite_dom_map_of)
  ultimately have "length ?m = Suc (length (AList.delete ?k ?m))"
    by (simp only: gomap_length gomap_ok_delete card_Suc_Diff1)
  then show ?thesis by (simp add: cache_Len_def evict_one_def Let_def)
qed

section \<open>Put\<close>

text \<open>The state in which the new entry is inserted.\<close>

definition put_base :: "string \<Rightarrow> cache \<Rightarrow> cache" where
  "put_base key c =
     (case map_of (ch_entries c) key of
        None \<Rightarrow> c
      | Some old \<Rightarrow>
          c\<lparr>ch_totalBytes := ch_totalBytes c - en_BodySize old,
            ch_lru := lru_remove key (ch_lru c),
            ch_entries := AList.delete key (ch_entries c)\<rparr>)"

definition put_oversize :: "Entry \<Rightarrow> cache \<Rightarrow> bool" where
  "put_oversize e c \<longleftrightarrow>
     cf_MaxEntryBytes (ch_cfg c) > 0 \<and> int (length (en_Body e)) > cf_MaxEntryBytes (ch_cfg c)"

definition stored_entry :: "Entry \<Rightarrow> Entry" where
  "stored_entry e = e\<lparr>en_BodySize := int (length (en_Body e))\<rparr>"

lemma cache_Put_eq:
  "cache_Put key e c =
     (if put_oversize e c then (c, e)
      else let c2 = evict_loop (int (length (en_Body e))) (put_base key c) in
        (c2\<lparr>ch_entries := AList.update key (stored_entry e) (ch_entries c2),
            ch_lru := lru_add key (ch_lru c2),
            ch_totalBytes := ch_totalBytes c2 + int (length (en_Body e))\<rparr>, stored_entry e))"
  by (simp add: cache_Put_def put_base_def put_oversize_def stored_entry_def Let_def)

lemma put_base_facts:
  assumes ok: "cache_ok c"
  shows "cache_ok (put_base key c)" "map_of (ch_entries (put_base key c)) = (map_of (ch_entries c))(key := None)"
    "ch_cfg (put_base key c) = ch_cfg c" "set (ch_entries (put_base key c)) \<subseteq> set (ch_entries c)"
    "lru_order (ch_lru (put_base key c)) = removeAll key (lru_order (ch_lru c))"
proof -
  have key: "key \<notin> set (lru_order (ch_lru c))" if "map_of (ch_entries c) key = None"
    using cache_okD(3) [OF ok] that by (metis gomap_dom domIff)
  show "cache_ok (put_base key c)"
    using cache_ok_removed [OF ok, of key] cache_okD(2) [OF ok] ok
    by (auto simp: put_base_def lru_ops split: option.splits)
  show "map_of (ch_entries (put_base key c)) = (map_of (ch_entries c))(key := None)"
    by (auto simp: put_base_def split: option.splits)
  show "ch_cfg (put_base key c) = ch_cfg c"
    by (auto simp: put_base_def split: option.splits)
  show "set (ch_entries (put_base key c)) \<subseteq> set (ch_entries c)"
    by (auto simp: put_base_def dest: set_delete_subset [THEN subsetD] split: option.splits)
  show "lru_order (ch_lru (put_base key c)) = removeAll key (lru_order (ch_lru c))"
    using key cache_okD(2) [OF ok]
    by (auto simp: put_base_def lru_ops removeAll_id split: option.splits)
qed

lemma put_loop_facts:
  assumes ok: "cache_ok c"
  shows "cache_ok (evict_loop n (put_base key c))"
    "ch_cfg (evict_loop n (put_base key c)) = ch_cfg c"
    "set (ch_entries (evict_loop n (put_base key c))) \<subseteq> set (ch_entries c)"
    "map_of (ch_entries (evict_loop n (put_base key c))) key = None"
proof -
  note pb = put_base_facts [OF ok, of key]
  note el = evict_loop_facts [OF pb(1), of n]
  show "cache_ok (evict_loop n (put_base key c))"
    "ch_cfg (evict_loop n (put_base key c)) = ch_cfg c"
    "set (ch_entries (evict_loop n (put_base key c))) \<subseteq> set (ch_entries c)"
    using el pb by auto
  have "key \<notin> fst ` set (ch_entries (put_base key c))"
    using pb(2) by (metis fun_upd_same map_of_eq_None_iff)
  with el show "map_of (ch_entries (evict_loop n (put_base key c))) key = None"
    by (auto simp: map_of_eq_None_iff)
qed

lemma cache_ok_Put:
  assumes ok: "cache_ok c" and key: "key \<noteq> ''''"
  shows "cache_ok (fst (cache_Put key e c))"
proof -
  let ?n = "int (length (en_Body e))"
  let ?c2 = "evict_loop ?n (put_base key c)"
  note pl = put_loop_facts [OF ok, of ?n key]
  have fresh: "key \<notin> fst ` set (ch_entries ?c2)"
    using pl(4) by (simp add: map_of_eq_None_iff)
  then have "key \<notin> set (lru_order (ch_lru ?c2))" using cache_okD(3) [OF pl(1)] by simp
  then show ?thesis
    using ok key cache_okD(1-4) [OF pl(1)] pl(1) fresh
      sum_list_update_fresh [OF pl(4), of en_BodySize "stored_entry e"]
      set_update_subset [of key "stored_entry e" "ch_entries ?c2"]
    by (auto simp: cache_Put_eq Let_def cache_ok_def lru_ops set_update_keys stored_entry_def)
qed

lemma cfg_Get [simp]: "ch_cfg (snd (cache_Get k now c)) = ch_cfg c"
  by (simp add: cache_Get_def cache_drop_def Let_def split: option.splits)

lemma cfg_Put: "cache_ok c \<Longrightarrow> ch_cfg (fst (cache_Put k e c)) = ch_cfg c"
  by (simp add: cache_Put_eq Let_def put_loop_facts)

section \<open>Refinement of an abstract LRU cache\<close>

text \<open>
  The abstract cache: the stored pairs, most recently used first. \<open>a_evict\<close> drops pairs from the
  old end until a body of \<open>n\<close> bytes fits next to the rest.
\<close>

type_synonym alru = "(string \<times> Entry) list"

definition a_bytes :: "alru \<Rightarrow> int" where
  "a_bytes xs = sum_list (map (\<lambda>p. int (length (en_Body (snd p)))) xs)"

definition a_fits :: "cache_config \<Rightarrow> int \<Rightarrow> alru \<Rightarrow> bool" where
  "a_fits cfg n xs \<longleftrightarrow>
     (cf_MaxEntries cfg > 0 \<longrightarrow> int (length xs) < cf_MaxEntries cfg) \<and>
     (cf_MaxBytes cfg > 0 \<longrightarrow> a_bytes xs + n \<le> cf_MaxBytes cfg)"

function a_evict :: "cache_config \<Rightarrow> int \<Rightarrow> alru \<Rightarrow> alru" where
  "a_evict cfg n xs = (if xs = [] \<or> a_fits cfg n xs then xs else a_evict cfg n (butlast xs))"
  by pat_completeness auto
termination
  by (relation "measure (\<lambda>(cfg, n, xs). length xs)") auto

declare a_evict.simps [simp del]

definition a_remove :: "string \<Rightarrow> alru \<Rightarrow> alru" where
  "a_remove key xs = filter (\<lambda>p. fst p \<noteq> key) xs"

definition a_get :: "string \<Rightarrow> int \<Rightarrow> alru \<Rightarrow> Entry option \<times> alru" where
  "a_get key now xs =
     (case map_of xs key of
        None \<Rightarrow> (None, xs)
      | Some e \<Rightarrow>
          if now > en_ExpiresAt e then (None, a_remove key xs)
          else (Some e, (key, e) # a_remove key xs))"

definition a_put :: "cache_config \<Rightarrow> string \<Rightarrow> Entry \<Rightarrow> alru \<Rightarrow> alru" where
  "a_put cfg key e xs =
     (let n = int (length (en_Body e)) in
      if cf_MaxEntryBytes cfg > 0 \<and> n > cf_MaxEntryBytes cfg then xs
      else (key, stored_entry e) # a_evict cfg n (a_remove key xs))"

definition abs_cache :: "cache \<Rightarrow> alru" where
  "abs_cache c = map (\<lambda>k. (k, the (map_of (ch_entries c) k))) (lru_order (ch_lru c))"

lemma fst_abs [simp]: "map fst (abs_cache c) = lru_order (ch_lru c)"
  by (simp add: abs_cache_def comp_def)

lemma abs_lookup: "cache_ok c \<Longrightarrow> map_of (abs_cache c) k = map_of (ch_entries c) k"
proof -
  assume ok: "cache_ok c"
  show ?thesis
  proof (cases "k \<in> set (lru_order (ch_lru c))")
    case True
    then have "map_of (ch_entries c) k \<noteq> None"
      using cache_okD(3) [OF ok] by (simp add: map_of_eq_None_iff)
    with True show ?thesis
      by (simp add: abs_cache_def map_of_map_restrict restrict_map_def)
  next
    case False
    then show ?thesis
      using cache_okD(3) [OF ok] by (metis fst_abs list.set_map map_of_eq_None_iff)
  qed
qed

lemma map_of_distinct_perm:
  assumes "distinct ks" "gomap_ok m" "set ks = fst ` set m"
  shows "length ks = length m"
    and "sum_list (map (\<lambda>k. f (the (map_of m k))) ks) = (sum_list (map (f \<circ> snd) m) :: int)"
proof -
  have m: "distinct (map fst m)" using assms(2) by (simp add: gomap_ok_def)
  show "length ks = length m"
    using assms(1,3) m by (metis distinct_card length_map list.set_map)
  have "sum_list (map (\<lambda>k. f (the (map_of m k))) ks) = (\<Sum>k \<in> set (map fst m). f (the (map_of m k)))"
    using assms by (simp add: sum_list_distinct_conv_sum_set)
  also have "\<dots> = sum_list (map (\<lambda>k. f (the (map_of m k))) (map fst m))"
    using m by (simp only: sum_list_distinct_conv_sum_set)
  also have "map (\<lambda>k. f (the (map_of m k))) (map fst m) = map (f \<circ> snd) m"
    using m by (auto simp: map_of_is_SomeI)
  finally show "sum_list (map (\<lambda>k. f (the (map_of m k))) ks) = sum_list (map (f \<circ> snd) m)" .
qed

lemma abs_sizes:
  assumes ok: "cache_ok c"
  shows "length (abs_cache c) = length (ch_entries c)" and "a_bytes (abs_cache c) = ch_totalBytes c"
proof -
  have d: "distinct (lru_order (ch_lru c))" using cache_okD(2) [OF ok] by (rule lru.order_distinct)
  note perm = map_of_distinct_perm [OF d cache_okD(1) [OF ok] cache_okD(3) [OF ok]]
  show "length (abs_cache c) = length (ch_entries c)" using perm(1) by (simp add: abs_cache_def)
  have "a_bytes (abs_cache c)
      = sum_list (map (\<lambda>k. int (length (en_Body (the (map_of (ch_entries c) k))))) (lru_order (ch_lru c)))"
    by (simp add: a_bytes_def abs_cache_def comp_def)
  also have "\<dots> = sum_list (map ((\<lambda>e. int (length (en_Body e))) \<circ> snd) (ch_entries c))"
    by (rule perm(2))
  also have "map ((\<lambda>e. int (length (en_Body e))) \<circ> snd) (ch_entries c) = map (en_BodySize \<circ> snd) (ch_entries c)"
    using ok by (auto simp: cache_ok_def)
  finally show "a_bytes (abs_cache c) = ch_totalBytes c" using cache_okD(4) [OF ok] by simp
qed

lemma abs_fits: "cache_ok c \<Longrightarrow> a_fits (ch_cfg c) n (abs_cache c) \<longleftrightarrow> \<not> too_many c \<and> \<not> too_big n c"
  by (auto simp: a_fits_def too_many_def too_big_def abs_sizes)

lemma abs_remove_map:
  "map (\<lambda>k'. (k', the ((m(k := None)) k'))) (removeAll k ks)
   = a_remove k (map (\<lambda>k'. (k', the (m k'))) ks)"
  by (induction ks) (auto simp: a_remove_def)

lemma abs_removeAll:
  "map (\<lambda>k'. (k', g k')) (removeAll k ks) = a_remove k (map (\<lambda>k'. (k', g k')) ks)"
  by (induction ks) (auto simp: a_remove_def)

lemma abs_removed:
  assumes "lru_order (ch_lru c') = removeAll k (lru_order (ch_lru c))"
    and "map_of (ch_entries c') = (map_of (ch_entries c))(k := None)"
  shows "abs_cache c' = a_remove k (abs_cache c)"
  using assms by (simp only: abs_cache_def abs_remove_map)

lemma abs_drop: "cache_ok c \<Longrightarrow> abs_cache (cache_drop k c) = a_remove k (abs_cache c)"
  by (rule abs_removed)
    (auto simp: cache_drop_def Let_def lru_ops cache_okD split: option.splits)

lemma abs_put_base: "cache_ok c \<Longrightarrow> abs_cache (put_base k c) = a_remove k (abs_cache c)"
  by (rule abs_removed) (simp_all add: put_base_facts)

lemma abs_evict_one:
  assumes ok: "cache_ok c" and ne: "lru_order (ch_lru c) \<noteq> []"
  shows "abs_cache (evict_one c) = butlast (abs_cache c)"
proof -
  obtain ks k where ks: "lru_order (ch_lru c) = ks @ [k]"
    using ne by (cases "lru_order (ch_lru c)" rule: rev_cases) auto
  have "k \<notin> set ks"
    using lru.order_distinct [OF cache_okD(2) [OF ok]] ks by simp
  then show ?thesis
    using ks cache_okD(2) [OF ok] ne
    by (auto simp: abs_cache_def evict_one_def Let_def lru_ops map_butlast [symmetric])
qed

lemma abs_evict_loop:
  assumes "cache_ok c"
  shows "abs_cache (evict_loop n c) = a_evict (ch_cfg c) n (abs_cache c)"
  using assms
proof (induction rule: evict_loop_induct)
  case (exit c)
  then show ?case by (subst a_evict.simps) (simp add: abs_fits)
next
  case (empty c)
  then have "abs_cache c = []" by (simp add: abs_cache_def)
  then show ?case by (subst a_evict.simps) simp
next
  case (evict c)
  have "abs_cache c \<noteq> []" using evict(3) by (simp add: abs_cache_def)
  moreover have "\<not> a_fits (ch_cfg c) n (abs_cache c)" using evict(1,2) by (simp add: abs_fits)
  ultimately show ?case
    using evict abs_evict_one [OF evict(1,3)] by (subst a_evict.simps) simp
qed

lemma abs_Get:
  assumes ok: "cache_ok c"
  shows "fst (cache_Get k now c) = fst (a_get k now (abs_cache c)) \<and>
    abs_cache (snd (cache_Get k now c)) = snd (a_get k now (abs_cache c))"
proof (cases "map_of (ch_entries c) k")
  case None
  with ok show ?thesis by (simp add: cache_Get_def a_get_def abs_lookup)
next
  case (Some e)
  have mem: "k \<in> set (lru_order (ch_lru c))"
    using Some cache_okD(3) [OF ok] by (simp add: map_of_Some_key)
  have "abs_cache (c\<lparr>ch_lru := lru_touch k (ch_lru c)\<rparr>) = (k, e) # a_remove k (abs_cache c)"
    using Some mem cache_okD(2) [OF ok]
    by (simp add: abs_cache_def lru_ops abs_removeAll)
  with Some ok show ?thesis by (simp add: cache_Get_def a_get_def abs_lookup abs_drop)
qed

lemma abs_Put:
  assumes ok: "cache_ok c" and key: "key \<noteq> ''''"
  shows "abs_cache (fst (cache_Put key e c)) = a_put (ch_cfg c) key e (abs_cache c)"
proof (cases "put_oversize e c")
  case True
  then show ?thesis by (simp add: cache_Put_eq a_put_def put_oversize_def Let_def)
next
  case False
  let ?n = "int (length (en_Body e))"
  let ?c2 = "evict_loop ?n (put_base key c)"
  note pl = put_loop_facts [OF ok, of ?n key]
  have fresh: "key \<notin> set (lru_order (ch_lru ?c2))"
    using pl(4) cache_okD(3) [OF pl(1)] by (simp add: map_of_eq_None_iff)
  have "abs_cache (fst (cache_Put key e c)) = (key, stored_entry e) # abs_cache ?c2"
    using False fresh cache_okD(2) [OF pl(1)]
    by (auto simp: cache_Put_eq Let_def abs_cache_def lru_ops)
  also have "abs_cache ?c2 = a_evict (ch_cfg c) ?n (a_remove key (abs_cache c))"
    using abs_evict_loop [OF put_base_facts(1) [OF ok]] put_base_facts(3) [OF ok] abs_put_base [OF ok]
    by simp
  finally show ?thesis using False by (auto simp: a_put_def put_oversize_def Let_def)
qed

text \<open>Eviction keeps the longest prefix that fits: nothing is evicted without need.\<close>

lemma a_evict_longest:
  "\<exists>m \<le> length xs. a_evict cfg n xs = take m xs \<and> (m = 0 \<or> a_fits cfg n (take m xs)) \<and>
     (\<forall>m'. m < m' \<and> m' \<le> length xs \<longrightarrow> \<not> a_fits cfg n (take m' xs))"
proof (induction cfg n xs rule: a_evict.induct)
  case (1 cfg n xs)
  show ?case
  proof (cases "xs = [] \<or> a_fits cfg n xs")
    case True
    then show ?thesis
      by (intro exI [of _ "length xs"]) (auto simp: a_evict.simps [of cfg n xs])
  next
    case False
    from "1.IH" [OF False] obtain m where m: "m \<le> length (butlast xs)"
      "a_evict cfg n (butlast xs) = take m (butlast xs)"
      "m = 0 \<or> a_fits cfg n (take m (butlast xs))"
      "\<forall>m'. m < m' \<and> m' \<le> length (butlast xs) \<longrightarrow> \<not> a_fits cfg n (take m' (butlast xs))"
      by blast
    have tk: "take j (butlast xs) = take j xs" if "j \<le> length (butlast xs)" for j
      using that by (simp add: butlast_conv_take)
    have "\<not> a_fits cfg n (take m' xs)" if "m < m'" "m' \<le> length xs" for m'
    proof (cases "m' \<le> length (butlast xs)")
      case True
      with that m(4) tk show ?thesis by metis
    next
      case f: False
      with that have "m' = length xs" by simp
      with False show ?thesis by simp
    qed
    then show ?thesis
      using m tk [OF m(1)] False
      by (intro exI [of _ m]) (auto simp: a_evict.simps [of cfg n xs])
  qed
qed

section \<open>Limits\<close>

text \<open>
  What the limits promise. The byte limit holds for a cache whose entry limit is set and not
  above it; validated configurations are of this kind.
\<close>

definition cache_within :: "cache \<Rightarrow> bool" where
  "cache_within c \<longleftrightarrow>
     (let cfg = ch_cfg c in
      (cf_MaxEntries cfg > 0 \<longrightarrow> int (cache_Len c) \<le> cf_MaxEntries cfg) \<and>
      (cf_MaxEntryBytes cfg > 0 \<longrightarrow>
         (\<forall>p \<in> set (ch_entries c). int (length (en_Body (snd p))) \<le> cf_MaxEntryBytes cfg)) \<and>
      (0 < cf_MaxEntryBytes cfg \<and> cf_MaxEntryBytes cfg \<le> cf_MaxBytes cfg \<longrightarrow>
         cache_TotalBytes c \<le> cf_MaxBytes cfg))"

lemma cache_within_New: "cache_within (cache_New cfg)"
  by (simp add: cache_within_def cache_New_def cache_Len_def cache_TotalBytes_def Let_def)

lemma cache_ok_total_nonneg: "cache_ok c \<Longrightarrow> 0 \<le> ch_totalBytes c"
  by (auto simp: cache_ok_def intro!: sum_list_nonneg)

lemma cache_within_shrink:
  assumes "cache_within c" and "ch_cfg c' = ch_cfg c" and "set (ch_entries c') \<subseteq> set (ch_entries c)"
    and "length (ch_entries c') \<le> length (ch_entries c)" and "ch_totalBytes c' \<le> ch_totalBytes c"
  shows "cache_within c'"
  using assms
  by (auto simp: cache_within_def cache_Len_def cache_TotalBytes_def Let_def)

lemma cache_within_Get:
  assumes ok: "cache_ok c" and w: "cache_within c"
  shows "cache_within (snd (cache_Get k now c))"
proof (cases "map_of (ch_entries c) k")
  case None
  with w show ?thesis by (simp add: cache_Get_def)
next
  case (Some e)
  have "0 \<le> en_BodySize e" using cache_okD(5) [OF ok Some] by simp
  then have "cache_within (cache_drop k c)"
    using Some
    by (intro cache_within_shrink [OF w])
      (auto simp: cache_drop_def Let_def length_delete_le dest: set_delete_subset [THEN subsetD])
  moreover have "cache_within (c\<lparr>ch_lru := lru_touch k (ch_lru c)\<rparr>)"
    by (rule cache_within_shrink [OF w]) simp_all
  ultimately show ?thesis using Some by (simp add: cache_Get_def)
qed

lemma length_update_fresh: "map_of m k = None \<Longrightarrow> length (AList.update k v m) = Suc (length m)"
  by (induction m) (auto split: if_splits)

lemma cache_within_Put:
  assumes ok: "cache_ok c" and w: "cache_within c" and key: "key \<noteq> ''''"
  shows "cache_within (fst (cache_Put key e c))"
proof (cases "put_oversize e c")
  case True
  with w show ?thesis by (simp add: cache_Put_eq)
next
  case False
  let ?n = "int (length (en_Body e))" and ?cfg = "ch_cfg c"
  let ?c2 = "evict_loop ?n (put_base key c)"
  let ?c3 = "fst (cache_Put key e c)"
  note pl = put_loop_facts [OF ok, of ?n key]
  have c3: "ch_cfg ?c3 = ?cfg" "ch_totalBytes ?c3 = ch_totalBytes ?c2 + ?n"
    "ch_entries ?c3 = AList.update key (stored_entry e) (ch_entries ?c2)"
    using False pl(2) by (simp_all add: cache_Put_eq Let_def)
  have len: "length (ch_entries ?c3) = Suc (length (ch_entries ?c2))"
    using c3(3) length_update_fresh [OF pl(4)] by simp
  have post: "\<not> too_many ?c2 \<and> \<not> too_big ?n ?c2 \<or> ch_entries ?c2 = []"
    by (rule evict_loop_post [OF put_base_facts(1) [OF ok]])
  have entry: "?n \<le> cf_MaxEntryBytes ?cfg" if "cf_MaxEntryBytes ?cfg > 0"
    using that False by (simp add: put_oversize_def)
  have "int (length (ch_entries ?c3)) \<le> cf_MaxEntries ?cfg" if "cf_MaxEntries ?cfg > 0"
    using post len that pl(2) by (auto simp: too_many_def)
  moreover have "ch_totalBytes ?c3 \<le> cf_MaxBytes ?cfg"
    if "0 < cf_MaxEntryBytes ?cfg" "cf_MaxEntryBytes ?cfg \<le> cf_MaxBytes ?cfg"
  proof (cases "ch_entries ?c2 = []")
    case True
    then have "ch_totalBytes ?c2 = 0" using cache_okD(4) [OF pl(1)] by simp
    then show ?thesis using c3(2) entry that by simp
  next
    case f: False
    then show ?thesis using post c3(2) pl(2) that by (auto simp: too_big_def)
  qed
  moreover have "int (length (en_Body (snd p))) \<le> cf_MaxEntryBytes ?cfg"
    if "cf_MaxEntryBytes ?cfg > 0" "p \<in> set (ch_entries ?c3)" for p
  proof -
    have "p = (key, stored_entry e) \<or> p \<in> set (ch_entries c)"
      using that(2) c3(3) pl(3) set_update_subset by fastforce
    then show ?thesis
      using entry that(1) w by (auto simp: stored_entry_def cache_within_def Let_def)
  qed
  ultimately show ?thesis
    using c3(1) by (simp add: cache_within_def cache_Len_def cache_TotalBytes_def Let_def)
qed

section \<open>Sequences of operations\<close>

text \<open>
  Goroutines call \<^verbatim>\<open>Get\<close> and \<^verbatim>\<open>Put\<close> concurrently; the mutex serialises them, so what happens to a
  cache is a list of operations.
\<close>

datatype cache_op = OpGet string int | OpPut string Entry

fun cache_step :: "cache_op \<Rightarrow> cache \<Rightarrow> cache" where
  "cache_step (OpGet key now) c = snd (cache_Get key now c)"
| "cache_step (OpPut key e) c = fst (cache_Put key e c)"

definition cache_run :: "cache_op list \<Rightarrow> cache \<Rightarrow> cache" where
  "cache_run ops c = fold cache_step ops c"

fun op_key_ok :: "cache_op \<Rightarrow> bool" where
  "op_key_ok (OpGet key now) = True"
| "op_key_ok (OpPut key e) = (key \<noteq> '''')"

lemma cache_step_inv:
  "cache_ok c \<Longrightarrow> cache_within c \<Longrightarrow> op_key_ok x \<Longrightarrow>
   cache_ok (cache_step x c) \<and> cache_within (cache_step x c) \<and> ch_cfg (cache_step x c) = ch_cfg c"
  by (cases x) (simp_all add: cache_ok_Get cache_ok_Put cache_within_Get cache_within_Put cfg_Put)

lemma cache_run_inv:
  "cache_ok c \<Longrightarrow> cache_within c \<Longrightarrow> list_all op_key_ok ops \<Longrightarrow>
   cache_ok (cache_run ops c) \<and> cache_within (cache_run ops c) \<and> ch_cfg (cache_run ops c) = ch_cfg c"
  unfolding cache_run_def
  by (induction ops arbitrary: c) (auto simp: cache_step_inv)

fun a_step :: "cache_config \<Rightarrow> cache_op \<Rightarrow> alru \<Rightarrow> alru" where
  "a_step cfg (OpGet key now) xs = snd (a_get key now xs)"
| "a_step cfg (OpPut key e) xs = a_put cfg key e xs"

lemma abs_step:
  "cache_ok c \<Longrightarrow> op_key_ok x \<Longrightarrow> abs_cache (cache_step x c) = a_step (ch_cfg c) x (abs_cache c)"
  by (cases x) (simp_all add: abs_Get abs_Put)

lemma abs_run:
  "cache_ok c \<Longrightarrow> cache_within c \<Longrightarrow> list_all op_key_ok ops \<Longrightarrow>
   abs_cache (cache_run ops c) = fold (a_step (ch_cfg c)) ops (abs_cache c)"
  unfolding cache_run_def
proof (induction ops arbitrary: c)
  case Nil
  then show ?case by simp
next
  case (Cons x ops)
  then show ?case using cache_step_inv [of c x] abs_step [of c x] by simp
qed

section \<open>The store interface\<close>

text \<open>
  What the proxy relies on: a lookup returns only what is stored and still fresh, lookups never
  add anything, and a store adds at most the given entry under the given key.
\<close>

locale response_store =
  fixes invar :: "'s \<Rightarrow> bool"
    and key_ok :: "'k \<Rightarrow> bool"
    and find :: "'s \<Rightarrow> 'k \<Rightarrow> 'e option"
    and get :: "'k \<Rightarrow> int \<Rightarrow> 's \<Rightarrow> 'e option \<times> 's"
    and put :: "'k \<Rightarrow> 'e \<Rightarrow> 's \<Rightarrow> 's \<times> 'e"
    and fresh :: "int \<Rightarrow> 'e \<Rightarrow> bool"
    and as_stored :: "'e \<Rightarrow> 'e"
  assumes invar_get: "invar s \<Longrightarrow> invar (snd (get k now s))"
    and invar_put: "invar s \<Longrightarrow> key_ok k \<Longrightarrow> invar (fst (put k e s))"
    and get_found: "invar s \<Longrightarrow> fst (get k now s) = Some e \<longleftrightarrow> find s k = Some e \<and> fresh now e"
    and get_keeps: "invar s \<Longrightarrow> find (snd (get k now s)) k' = Some e \<Longrightarrow> find s k' = Some e"
    and put_keeps: "invar s \<Longrightarrow> key_ok k \<Longrightarrow> find (fst (put k e s)) k' = Some e' \<Longrightarrow>
      (k' = k \<and> e' = as_stored e) \<or> find s k' = Some e'"
begin

definition all_stored :: "('k \<Rightarrow> 'e \<Rightarrow> bool) \<Rightarrow> 's \<Rightarrow> bool" where
  "all_stored P s \<longleftrightarrow> (\<forall>k e. find s k = Some e \<longrightarrow> P k e)"

lemma all_stored_get: "invar s \<Longrightarrow> all_stored P s \<Longrightarrow> all_stored P (snd (get k now s))"
  unfolding all_stored_def using get_keeps by blast

lemma all_stored_put:
  "invar s \<Longrightarrow> key_ok k \<Longrightarrow> all_stored P s \<Longrightarrow> P k (as_stored e) \<Longrightarrow> all_stored P (fst (put k e s))"
  unfolding all_stored_def using put_keeps by blast

lemma hit_satisfies:
  "invar s \<Longrightarrow> all_stored P s \<Longrightarrow> fst (get k now s) = Some e \<Longrightarrow> P k e \<and> fresh now e"
  by (simp add: get_found all_stored_def)

end

definition entry_fresh :: "int \<Rightarrow> Entry \<Rightarrow> bool" where
  "entry_fresh now e \<longleftrightarrow> now \<le> en_ExpiresAt e"

definition cache_find :: "cache \<Rightarrow> string \<Rightarrow> Entry option" where
  "cache_find c k = map_of (ch_entries c) k"

lemma cache_find_Get:
  "cache_find (snd (cache_Get k now c)) k' = Some e \<Longrightarrow> cache_find c k' = Some e"
  by (auto simp: cache_find_def cache_Get_def cache_drop_def Let_def split: option.splits if_splits)

lemma cache_find_Put:
  assumes ok: "cache_ok c" and f: "cache_find (fst (cache_Put k e c)) k' = Some e'"
  shows "(k' = k \<and> e' = stored_entry e) \<or> cache_find c k' = Some e'"
proof (cases "put_oversize e c \<or> k' = k")
  case True
  with f show ?thesis
    by (auto simp: cache_Put_eq cache_find_def Let_def split: if_splits)
next
  case False
  let ?c2 = "evict_loop (int (length (en_Body e))) (put_base k c)"
  have "map_of (ch_entries ?c2) k' = Some e'"
    using f False by (simp add: cache_Put_eq cache_find_def Let_def)
  then have "(k', e') \<in> set (ch_entries c)"
    using put_loop_facts(3) [OF ok] map_of_SomeD by fastforce
  then have "map_of (ch_entries c) k' = Some e'"
    using cache_okD(1) [OF ok] by (simp add: gomap_ok_def map_of_is_SomeI)
  then show ?thesis by (simp add: cache_find_def)
qed

lemma cache_Get_found:
  "fst (cache_Get k now c) = Some e \<longleftrightarrow> cache_find c k = Some e \<and> entry_fresh now e"
  by (auto simp: cache_Get_def cache_find_def entry_fresh_def split: option.splits)

interpretation rc: response_store cache_ok "\<lambda>k. k \<noteq> ''''" cache_find cache_Get cache_Put
  entry_fresh stored_entry
  by unfold_locales
    (simp_all add: cache_ok_Get cache_ok_Put cache_Get_found,
      (blast intro: cache_find_Get dest: cache_find_Put)+)

lemma cache_find_Put_same:
  assumes "cache_ok c" "\<not> put_oversize e c"
  shows "cache_find (fst (cache_Put k e c)) k = Some (stored_entry e)"
  using assms by (simp add: cache_find_def cache_Put_eq Let_def)

section \<open>Properties\<close>

text \<open>
  C4: in every sequence of \<open>Get\<close> and \<open>Put\<close> calls on a new cache (with the non-empty keys the proxy
  builds) the entry map, the recency list and the byte total agree, and the configured limits on
  the number of entries, on one body and on the sum of all bodies hold.
\<close>

theorem cache_run_safe:
  assumes "list_all op_key_ok ops"
  shows "cache_ok (cache_run ops (cache_New cfg)) \<and> cache_within (cache_run ops (cache_New cfg))
    \<and> ch_cfg (cache_run ops (cache_New cfg)) = cfg"
  using cache_run_inv [OF cache_ok_New [of cfg] cache_within_New [of cfg] assms]
  by (simp add: cache_New_def)

definition sample_config :: cache_config where
  "sample_config =
     \<lparr>cf_MaxEntries = 2, cf_MaxBytes = 10, cf_MaxEntryBytes = 6, cf_DefaultTTLSeconds = 300,
      cf_CachePrivate = False, cf_CacheWithCookies = False, cf_CacheWithAuthorization = False\<rparr>"

definition sample_entry :: "string \<Rightarrow> Entry" where
  "sample_entry body =
     \<lparr>en_Method = ''GET'', en_URL = ''http://h/a'', en_StatusCode = 200, en_Header = [],
      en_Body = body, en_StoredAt = 0, en_ExpiresAt = 50, en_ETag = '''', en_LastModified = '''',
      en_BodySize = 0\<rparr>"

theorem cache_run_safe_witness:
  "cache_ok (cache_run [OpPut ''a'' (sample_entry ''xx''), OpGet ''a'' 7] (cache_New sample_config))
   \<and> cache_within (cache_run [OpPut ''a'' (sample_entry ''xx''), OpGet ''a'' 7] (cache_New sample_config))
   \<and> ch_cfg (cache_run [OpPut ''a'' (sample_entry ''xx''), OpGet ''a'' 7] (cache_New sample_config))
     = sample_config"
  by (rule cache_run_safe) simp

text \<open>
  C5: the cache refines the abstract LRU list: after any sequence of operations on a new cache, the
  stored pairs in recency order are those of the abstract cache after the same operations, and a
  lookup then answers as the abstract one does.
\<close>

theorem cache_refines_lru:
  assumes "list_all op_key_ok ops"
  shows "abs_cache (cache_run ops (cache_New cfg)) = fold (a_step cfg) ops []
    \<and> fst (cache_Get key now (cache_run ops (cache_New cfg)))
      = fst (a_get key now (fold (a_step cfg) ops []))"
proof -
  have run: "abs_cache (cache_run ops (cache_New cfg)) = fold (a_step cfg) ops []"
    using abs_run [OF cache_ok_New [of cfg] cache_within_New [of cfg] assms]
    by (simp add: cache_New_def abs_cache_def lru_ops)
  moreover have "cache_ok (cache_run ops (cache_New cfg))"
    using cache_run_inv [OF cache_ok_New [of cfg] cache_within_New [of cfg] assms] by simp
  ultimately show ?thesis using abs_Get by metis
qed

theorem cache_refines_lru_witness:
  "abs_cache (cache_run [OpPut ''a'' (sample_entry ''xx''), OpPut ''b'' (sample_entry ''y''),
      OpGet ''a'' 7, OpPut ''c'' (sample_entry ''z'')] (cache_New sample_config))
   = [(''c'', stored_entry (sample_entry ''z'')), (''a'', stored_entry (sample_entry ''xx''))]
   \<and> fst (cache_Get ''b'' 7 (cache_run [OpPut ''a'' (sample_entry ''xx''),
      OpPut ''b'' (sample_entry ''y''), OpGet ''a'' 7, OpPut ''c'' (sample_entry ''z'')]
      (cache_New sample_config))) = None"
proof -
  let ?ops = "[OpPut ''a'' (sample_entry ''xx''), OpPut ''b'' (sample_entry ''y''),
      OpGet ''a'' 7, OpPut ''c'' (sample_entry ''z'')]"
  have "fold (a_step sample_config) ?ops []
      = [(''c'', stored_entry (sample_entry ''z'')), (''a'', stored_entry (sample_entry ''xx''))]"
    by (simp add: a_put_def a_get_def a_remove_def sample_config_def sample_entry_def
        stored_entry_def a_evict.simps a_fits_def a_bytes_def Let_def)
  then show ?thesis
    using cache_refines_lru [of ?ops sample_config "''b''" 7] by (simp add: a_get_def)
qed

text \<open>
  an entry that was put and is not above the entry limit is returned by the next lookup of its
  key exactly until its expiry time, with its body and its size recorded; afterwards the lookup
  misses and the entry is gone.
\<close>

theorem cache_get_after_put:
  assumes "cache_ok c" "key \<noteq> ''''" "\<not> put_oversize e c"
  shows "fst (cache_Get key now (fst (cache_Put key e c)))
      = (if now \<le> en_ExpiresAt e then Some (stored_entry e) else None)
    \<and> (now > en_ExpiresAt e \<longrightarrow>
        cache_find (snd (cache_Get key now (fst (cache_Put key e c)))) key = None)"
proof -
  have "map_of (ch_entries (fst (cache_Put key e c))) key = Some (stored_entry e)"
    using cache_find_Put_same [OF assms(1,3), of key] by (simp add: cache_find_def)
  then show ?thesis
    by (auto simp: cache_Get_def cache_find_def cache_drop_def stored_entry_def Let_def)
qed

theorem cache_get_after_put_witness:
  "fst (cache_Get ''a'' 50 (fst (cache_Put ''a'' (sample_entry ''xx'') (cache_New sample_config))))
     = Some (stored_entry (sample_entry ''xx''))
   \<and> fst (cache_Get ''a'' 51 (fst (cache_Put ''a'' (sample_entry ''xx'') (cache_New sample_config)))) = None"
proof -
  have "\<not> put_oversize (sample_entry ''xx'') (cache_New sample_config)"
    by (simp add: put_oversize_def sample_entry_def cache_New_def sample_config_def)
  note g = cache_get_after_put [OF cache_ok_New [of sample_config] _ this, of "''a''"]
  show ?thesis using g [of 50] g [of 51] by (simp add: sample_entry_def)
qed

text \<open>
  \<open>Put\<close> replaces the entry of its key and evicts from the least recently used end only, and no
  more than it must: what is kept of the other entries is the longest run of most recently used
  ones next to which the new body fits.
\<close>

theorem cache_put_evicts_oldest:
  assumes "cache_ok c" "key \<noteq> ''''" "\<not> put_oversize e c"
  defines "others \<equiv> a_remove key (abs_cache c)" and "n \<equiv> int (length (en_Body e))"
  shows "\<exists>m \<le> length others.
    abs_cache (fst (cache_Put key e c)) = (key, stored_entry e) # take m others
    \<and> (m = 0 \<or> a_fits (ch_cfg c) n (take m others))
    \<and> (\<forall>m'. m < m' \<and> m' \<le> length others \<longrightarrow> \<not> a_fits (ch_cfg c) n (take m' others))"
proof -
  have "abs_cache (fst (cache_Put key e c)) = (key, stored_entry e) # a_evict (ch_cfg c) n others"
    using abs_Put [OF assms(1,2), of e] assms(3)
    by (auto simp: a_put_def put_oversize_def others_def n_def Let_def)
  then show ?thesis using a_evict_longest [of others "ch_cfg c" n] by auto
qed

theorem cache_put_evicts_oldest_witness:
  "abs_cache (fst (cache_Put ''c'' (sample_entry ''z'')
      (cache_run [OpPut ''a'' (sample_entry ''xx''), OpPut ''b'' (sample_entry ''y'')]
        (cache_New sample_config))))
   = [(''c'', stored_entry (sample_entry ''z'')), (''b'', stored_entry (sample_entry ''y''))]"
proof -
  let ?ops = "[OpPut ''a'' (sample_entry ''xx''), OpPut ''b'' (sample_entry ''y'')]"
  let ?c = "cache_run ?ops (cache_New sample_config)"
  let ?o = "[(''b'', stored_entry (sample_entry ''y'')), (''a'', stored_entry (sample_entry ''xx''))]"
  have inv: "cache_ok ?c" "ch_cfg ?c = sample_config"
    using cache_run_inv [OF cache_ok_New cache_within_New, of ?ops sample_config]
    by (simp_all add: cache_New_def)
  have "abs_cache ?c = fold (a_step sample_config) ?ops []"
    using abs_run [OF cache_ok_New cache_within_New, of ?ops sample_config]
    by (simp add: cache_New_def abs_cache_def lru_ops)
  then have others: "a_remove ''c'' (abs_cache ?c) = ?o"
    by (simp add: a_put_def a_remove_def sample_config_def sample_entry_def
        stored_entry_def a_evict.simps a_fits_def a_bytes_def Let_def)
  have small: "\<not> put_oversize (sample_entry ''z'') ?c"
    using inv(2) by (simp add: put_oversize_def sample_entry_def sample_config_def)
  obtain m where m: "m \<le> 2"
    "abs_cache (fst (cache_Put ''c'' (sample_entry ''z'') ?c))
      = (''c'', stored_entry (sample_entry ''z'')) # take m ?o"
    "m = 0 \<or> a_fits sample_config 1 (take m ?o)"
    "\<forall>m'. m < m' \<and> m' \<le> 2 \<longrightarrow> \<not> a_fits sample_config 1 (take m' ?o)"
    using cache_put_evicts_oldest [OF inv(1) _ small, of "''c''"] others inv(2)
    by (auto simp: sample_entry_def numeral_2_eq_2)
  have "a_fits sample_config 1 (take 1 ?o)" "\<not> a_fits sample_config 1 (take 2 ?o)"
    by (simp_all add: a_fits_def a_bytes_def sample_config_def sample_entry_def stored_entry_def)
  then have "m \<noteq> 0" "m \<noteq> 2" using m(3,4) by auto
  then have "m = 1" using m(1) by simp
  with m(2) show ?thesis by simp
qed

text \<open>
  C29: the eviction loop of \<open>Put\<close> ends. It runs at most once per stored entry, each turn removes the
  least recently used entry and is taken only while a limit is exceeded, and when it ends both limits
  leave room for the new body or nothing is stored any more.
\<close>

theorem eviction_terminates:
  assumes "cache_ok c"
  shows "\<exists>m. m \<le> cache_Len c \<and> evict_loop n c = (evict_one ^^ m) c \<and>
    cache_Len (evict_loop n c) = cache_Len c - m \<and>
    (\<forall>i < m. too_many ((evict_one ^^ i) c) \<or> too_big n ((evict_one ^^ i) c)) \<and>
    (\<not> too_many (evict_loop n c) \<and> \<not> too_big n (evict_loop n c) \<or> cache_Len (evict_loop n c) = 0)"
  using assms
proof (induction rule: evict_loop_induct [where n = n])
  case (exit c)
  then show ?case by (intro exI [of _ 0]) simp
next
  case (empty c)
  then show ?case using cache_okD(3) [OF empty(1)] by (intro exI [of _ 0]) (simp add: cache_Len_def)
next
  case (evict c)
  note len = Len_evict_one [OF evict(1,3)]
  obtain m where m: "m \<le> cache_Len (evict_one c)" "evict_loop n (evict_one c) = (evict_one ^^ m) (evict_one c)"
    "cache_Len (evict_loop n (evict_one c)) = cache_Len (evict_one c) - m"
    "\<forall>i < m. too_many ((evict_one ^^ i) (evict_one c)) \<or> too_big n ((evict_one ^^ i) (evict_one c))"
    "\<not> too_many (evict_loop n (evict_one c)) \<and> \<not> too_big n (evict_loop n (evict_one c)) \<or>
     cache_Len (evict_loop n (evict_one c)) = 0"
    using evict(5) by blast
  have "\<forall>i < Suc m. too_many ((evict_one ^^ i) c) \<or> too_big n ((evict_one ^^ i) c)"
    using m(4) evict(2) by (simp add: All_less_Suc2 funpow_Suc_right del: funpow.simps(2))
  then show ?case using m len
    by (intro exI [of _ "Suc m"]) (simp add: funpow_Suc_right del: funpow.simps(2))
qed

lemma eviction_terminates_witness:
  "\<exists>m \<le> 1. evict_loop 9 (fst (cache_Put ''a'' (sample_entry ''xx'') (cache_New sample_config)))
     = (evict_one ^^ m) (fst (cache_Put ''a'' (sample_entry ''xx'') (cache_New sample_config)))"
proof -
  let ?c = "fst (cache_Put ''a'' (sample_entry ''xx'') (cache_New sample_config))"
  have "cache_ok ?c" by (rule cache_ok_Put [OF cache_ok_New]) simp
  moreover have "cache_Len ?c = 1" by code_simp
  ultimately show ?thesis using eviction_terminates [of ?c 9] by auto
qed
end
