(* ===== verification/Cache_Rules.thy ===== *)
theory Cache_Rules
  imports Go_Net
begin

text \<open>
  \<^verbatim>\<open>internal/cache/policy.go\<close>: which requests and responses may be cached, for how long, and under
  which key. Durations and instants are in nanoseconds; a duration is an \<open>int64\<close> and its
  multiplication wraps. \<open>ul\<close> is the Unicode lower-case table outside ASCII, \<open>pt\<close> is
  \<^verbatim>\<open>http.ParseTime\<close>, whose date layouts are not part of the program.
\<close>

section \<open>Directives\<close>

definition splitComma :: "string \<Rightarrow> string list" where
  "splitComma s = (if s = '''' then [] else Split s (CHR '',''))"

definition directive_name :: "string \<Rightarrow> string" where
  "directive_name d =
     (let d = TrimSpace d in
      case IndexByte d (CHR ''='') of Some idx \<Rightarrow> take idx d | None \<Rightarrow> d)"

definition hasDirective :: "string \<Rightarrow> string \<Rightarrow> bool" where
  "hasDirective cc directive = list_ex (\<lambda>d. EqualFold (directive_name d) directive) (splitComma cc)"

section \<open>Requests\<close>

record RequestOptions =
  ro_CacheWithAuthorization :: bool
  ro_CacheWithCookies :: bool

definition IsRequestCacheable :: "http_request \<Rightarrow> RequestOptions \<Rightarrow> bool" where
  "IsRequestCacheable r opts =
     (if rq_Method r \<noteq> ''GET'' \<and> rq_Method r \<noteq> ''HEAD'' then False
      else if \<not> ro_CacheWithAuthorization opts \<and> Header_Get (rq_Header r) ''Authorization'' \<noteq> ''''
      then False
      else if \<not> ro_CacheWithCookies opts \<and> Header_Get (rq_Header r) ''Cookie'' \<noteq> '''' then False
      else let cc = Header_Get (rq_Header r) ''Cache-Control'' in
        if hasDirective cc ''no-store'' then False
        else if hasDirective cc ''no-cache'' then False
        else True)"

section \<open>Responses\<close>

record ResponseOptions =
  so_MaxEntryBytes :: int
  so_CachePrivate :: bool

definition cacheableStatuses :: "int list" where
  "cacheableStatuses = [200, 203, 204, 206, 301, 308]"

definition vary_supported :: "(nat \<Rightarrow> nat) \<Rightarrow> string \<Rightarrow> bool" where
  "vary_supported ul v \<longleftrightarrow> TrimSpace (to_lower ul v) = ''accept-encoding''"

definition IsResponseCacheable ::
  "(nat \<Rightarrow> nat) \<Rightarrow> string \<Rightarrow> int \<Rightarrow> header \<Rightarrow> int \<Rightarrow> ResponseOptions \<Rightarrow> bool"
where
  "IsResponseCacheable ul method statusCode respHeader bodySize opts =
     (if method \<noteq> ''GET'' \<and> method \<noteq> ''HEAD'' then False
      else if statusCode \<notin> set cacheableStatuses then False
      else let cc = Header_Get respHeader ''Cache-Control'' in
        if hasDirective cc ''no-store'' then False
        else if \<not> so_CachePrivate opts \<and> hasDirective cc ''private'' then False
        else if \<not> so_CachePrivate opts \<and> Header_Get respHeader ''Set-Cookie'' \<noteq> '''' then False
        else let vary = Header_Get respHeader ''Vary'' in
          if vary = ''*'' then False
          else if vary \<noteq> '''' \<and> \<not> list_all (vary_supported ul) (splitComma vary) then False
          else if so_MaxEntryBytes opts > 0 \<and> bodySize > so_MaxEntryBytes opts then False
          else True)"

section \<open>Time to live\<close>

definition staticExtensions :: "string list" where
  "staticExtensions =
     [''.css'', ''.js'', ''.mjs'', ''.map'', ''.png'', ''.jpg'', ''.jpeg'', ''.webp'', ''.svg'',
      ''.ico'', ''.json'']"

text \<open>One pass of the loop over the directives: the non-negative number a \<open>max-age\<close> carries.\<close>

definition max_age_of :: "(nat \<Rightarrow> nat) \<Rightarrow> string \<Rightarrow> int option" where
  "max_age_of ul d =
     (let directive = TrimSpace d in
      if HasPrefix (to_lower ul directive) ''max-age='' then
        (case Atoi (drop 8 directive) of
           Some n \<Rightarrow> if n \<ge> 0 then Some n else None
         | None \<Rightarrow> None)
      else None)"

fun first_max_age :: "(nat \<Rightarrow> nat) \<Rightarrow> string list \<Rightarrow> int option" where
  "first_max_age ul [] = None"
| "first_max_age ul (d # ds) =
     (case max_age_of ul d of Some n \<Rightarrow> Some n | None \<Rightarrow> first_max_age ul ds)"

definition heuristic_ttl :: "(nat \<Rightarrow> nat) \<Rightarrow> string \<Rightarrow> int \<Rightarrow> int" where
  "heuristic_ttl ul reqURL defaultTTLSec =
     (if defaultTTLSec > 0 then
        let rawPath = (case IndexByte reqURL (CHR ''?'') of Some idx \<Rightarrow> take idx reqURL | None \<Rightarrow> reqURL);
            ext = to_lower ul (path_Ext rawPath)
        in if ext \<in> set staticExtensions then seconds defaultTTLSec else 0
      else 0)"

definition TTLFor ::
  "(nat \<Rightarrow> nat) \<Rightarrow> (string \<Rightarrow> int option) \<Rightarrow> header \<Rightarrow> string \<Rightarrow> int \<Rightarrow> int \<Rightarrow> int"
where
  "TTLFor ul pt respHeader reqURL defaultTTLSec now =
     (case first_max_age ul (splitComma (Header_Get respHeader ''Cache-Control'')) of
        Some n \<Rightarrow> seconds n
      | None \<Rightarrow>
          let exp = Header_Get respHeader ''Expires'' in
          case (if exp \<noteq> '''' then pt exp else None) of
            Some t \<Rightarrow> if t > now then time_Sub t now else heuristic_ttl ul reqURL defaultTTLSec
          | None \<Rightarrow> heuristic_ttl ul reqURL defaultTTLSec)"

section \<open>Keys and copies\<close>

definition nul :: char where "nul = char_of (0::nat)"

definition BuildKey :: "string \<Rightarrow> string \<Rightarrow> header \<Rightarrow> string" where
  "BuildKey method rawURL reqHeader =
     method @ [nul] @ rawURL @ [nul] @ Header_Get reqHeader ''Accept-Encoding''"

text \<open>The loop \<^verbatim>\<open>for k, vs := range src { dst[k] = copy of vs }\<close>.\<close>

definition CopyHeader :: "header \<Rightarrow> header" where
  "CopyHeader src = fold (\<lambda>(k, vs). AList.update k vs) src []"

section \<open>Facts\<close>

lemma BuildKey_not_Nil [simp]: "BuildKey m u h \<noteq> ''''"
  by (simp add: BuildKey_def)

lemma split_at_first:
  assumes "c \<notin> set a" "c \<notin> set b" "a @ c # x = b @ c # y"
  shows "a = b \<and> x = y"
  using assms
proof (induction a arbitrary: b)
  case Nil
  then show ?case by (cases b) auto
next
  case (Cons z a)
  then show ?case by (cases b) auto
qed

lemma BuildKey_inj:
  assumes "nul \<notin> set m" "nul \<notin> set u" "nul \<notin> set m'" "nul \<notin> set u'"
    and "BuildKey m u h = BuildKey m' u' h'"
  shows "m = m' \<and> u = u' \<and> Header_Get h ''Accept-Encoding'' = Header_Get h' ''Accept-Encoding''"
proof -
  let ?t = "\<lambda>u h. u @ nul # Header_Get h ''Accept-Encoding''"
  have "m @ nul # ?t u h = m' @ nul # ?t u' h'" using assms(5) by (simp add: BuildKey_def)
  with assms(1,3) have "m = m'" "?t u h = ?t u' h'" by (meson split_at_first)+
  with assms(2,4) show ?thesis by (meson split_at_first)
qed

lemma fold_update_lookup:
  "gomap_ok src \<Longrightarrow>
   map_of (fold (\<lambda>(k, vs). AList.update k vs) src d) k =
     (case map_of src k of Some vs \<Rightarrow> Some vs | None \<Rightarrow> map_of d k)"
proof (induction src arbitrary: d)
  case Nil
  then show ?case by simp
next
  case (Cons p src)
  obtain k' vs' where p: "p = (k', vs')" by (cases p)
  have "k' \<notin> fst ` set src" using Cons.prems p by (simp add: gomap_ok_def)
  then have "map_of src k' = None" by (simp add: map_of_eq_None_iff)
  with Cons p show ?case by (auto simp: gomap_ok_def split: option.splits)
qed

lemma CopyHeader_lookup: "gomap_ok src \<Longrightarrow> map_of (CopyHeader src) = map_of src"
  by (rule ext) (simp add: CopyHeader_def fold_update_lookup split: option.splits)

lemma CopyHeader_ok: "gomap_ok (CopyHeader src)"
proof -
  have "gomap_ok d \<Longrightarrow> gomap_ok (fold (\<lambda>(k, vs). AList.update k vs) src d)" for d :: header
    by (induction src arbitrary: d) auto
  then show ?thesis by (simp add: CopyHeader_def)
qed

lemma heuristic_range: "int64_range (heuristic_ttl ul u d)"
  by (simp add: heuristic_ttl_def seconds_range Let_def)
    (simp add: int64_range_def min_int64_def max_int64_def)

lemma hasDirective_iff:
  "hasDirective cc dir \<longleftrightarrow> (\<exists>d \<in> set (splitComma cc). EqualFold (directive_name d) dir)"
  by (simp add: hasDirective_def list_ex_iff)

lemma Split_Join:
  "ds \<noteq> [] \<Longrightarrow> \<forall>d \<in> set ds. c \<notin> set d \<Longrightarrow> Split (Join ds c) c = ds"
proof (induction ds)
  case Nil
  then show ?case by simp
next
  case (Cons d ds)
  then show ?case
    by (cases ds) (auto simp: Join_Cons Split_append Split_no_sep_single)
qed

lemma splitComma_Join:
  assumes "ds \<noteq> []" "\<forall>d \<in> set ds. CHR '','' \<notin> set d" "ds \<noteq> ['''']"
  shows "splitComma (Join ds (CHR '','')) = ds"
proof -
  have "Join ds (CHR '','') \<noteq> ''''"
    using assms(1,3) by (cases ds rule: list.exhaust; cases "tl ds") auto
  then show ?thesis using assms by (simp add: splitComma_def Split_Join)
qed

section \<open>Directives as they are written\<close>

text \<open>
  A directive as a peer may write it: blanks, a name, then an argument or more blanks.
\<close>

definition written :: "nat \<Rightarrow> string \<Rightarrow> string \<Rightarrow> string" where
  "written i w x = spaces i @ w @ x"

definition directive_tail :: "string \<Rightarrow> bool" where
  "directive_tail x \<longleftrightarrow> x = spaces (length x) \<or> prefix ''='' x"

definition directive_word :: "string \<Rightarrow> bool" where
  "directive_word w \<longleftrightarrow> w \<noteq> [] \<and> list_all visible w \<and> CHR ''='' \<notin> set w"

lemma directive_word_ends:
  assumes "directive_word w"
  obtains u l where "w = u @ [l]" "visible l" "visible (hd w)"
  using assms that [of "butlast w" "last w"]
  by (auto simp: directive_word_def list_all_iff)

lemma directive_name_written:
  assumes w: "directive_word w" and x: "directive_tail x"
  shows "directive_name (written i w x) = w"
proof -
  obtain u l where ul: "w = u @ [l]" "visible l" "visible (hd w)"
    using w by (rule directive_word_ends)
  have eq: "CHR ''='' \<notin> set w" using w by (simp add: directive_word_def)
  from x consider j where "x = spaces j" | y where "x = CHR ''='' # y"
    by (auto simp: directive_tail_def prefix_def)
  then show ?thesis
  proof cases
    case 1
    then have "TrimSpace (written i w x) = w"
      using TrimSpace_visible(1) [OF ul(3,2,1) refl] by (simp add: written_def)
    moreover have "IndexByte w (CHR ''='') = None" using eq by simp
    ultimately show ?thesis by (simp only: directive_name_def Let_def option.case)
  next
    case 2
    have "\<exists>z. TrimSpace (spaces i @ (w @ ''='') @ y) = (w @ ''='') @ z"
      by (rule TrimSpace_visible(2) [of "hd w" "CHR ''=''" _ w])
        (use ul in \<open>auto simp: visible_def hd_append\<close>)
    then obtain z where "TrimSpace (written i w x) = w @ CHR ''='' # z"
      using 2 by (auto simp: written_def)
    then show ?thesis using eq by (simp add: directive_name_def IndexByte_append)
  qed
qed

lemma lower_byte_ascii: "byte (lower_char c) < 128 \<Longrightarrow> byte c < 128"
  by (auto simp: lower_char_def lower_byte_def split: if_splits)

lemma is_ascii_map_lowerD: "is_ascii (map lower_char w) \<Longrightarrow> is_ascii w"
proof -
  assume "is_ascii (map lower_char w)"
  then have "list_all (\<lambda>c. byte (lower_char c) < 128) w" by (simp add: is_ascii_def list.pred_map comp_def)
  then show "is_ascii w" unfolding is_ascii_def by (rule list.pred_mono_strong) (rule lower_byte_ascii)
qed

lemma hasDirective_written:
  assumes ds: "\<forall>d \<in> set (ds @ es). CHR '','' \<notin> set d" "CHR '','' \<notin> set (written i w x)"
    and w: "directive_word w" and x: "directive_tail x"
    and low: "map lower_char w = map lower_char dir" "is_ascii w" "is_ascii dir"
  shows "hasDirective (Join (ds @ written i w x # es) (CHR '','')) dir"
proof -
  let ?l = "ds @ written i w x # es"
  have "written i w x \<noteq> []" using w by (simp add: written_def directive_word_def)
  then have "?l \<noteq> [[]]" by (cases ds) auto
  moreover have "\<forall>d \<in> set ?l. CHR '','' \<notin> set d" using ds by auto
  ultimately have "splitComma (Join ?l (CHR '','')) = ?l"
    by (intro splitComma_Join) simp_all
  moreover have "EqualFold (directive_name (written i w x)) dir"
    unfolding directive_name_written [OF w x] EqualFold_ascii [OF low(2,3)] by (rule low(1))
  ultimately show ?thesis unfolding hasDirective_iff
    by (metis in_set_conv_decomp)
qed

lemma lower_char_eq_sign: "lower_char (CHR ''='') = CHR ''=''" "lower_char (CHR '','') = CHR '',''"
  by code_simp+

lemma max_age_of_written:
  assumes w: "map lower_char w = ''max-age''" and n: "int64_range (int n)"
  shows "max_age_of ul (written i (w @ CHR ''='' # nat_digits n) (spaces j)) = Some (int n)"
proof -
  let ?w = "w @ CHR ''='' # nat_digits n"
  have aw: "is_ascii w"
    by (rule is_ascii_map_lowerD) (simp add: w is_ascii_def)
  have dig: "list_all is_digit (nat_digits n)" by (rule nat_digits_digits)
  have vis_digit: "is_digit c \<Longrightarrow> visible c" for c by (auto simp: is_digit_def visible_def)
  have lw: "length w = 7" using arg_cong [OF w, of length] by simp
  obtain c w' where cw: "w = c # w'" using lw by (cases w) auto
  have "lower_char c = CHR ''m''" using w cw by simp
  then have "byte (lower_char c) = 109" by simp
  then have vc: "visible c" by (auto simp: visible_def lower_char_def lower_byte_def split: if_splits)
  obtain u l where ul: "nat_digits n = u @ [l]" by (metis append_butlast_last_id nat_digits_not_Nil)
  then have "visible l" using dig vis_digit by simp
  then have trim: "TrimSpace (written i ?w (spaces j)) = ?w"
    unfolding written_def
    by (intro TrimSpace_visible(1) [OF vc _ _ _, of l _ "w @ CHR ''='' # u"]) (simp_all add: ul cw)
  have "is_ascii ?w"
    using aw dig by (auto simp: is_ascii_def list_all_iff is_digit_def)
  then have "to_lower ul ?w = ''max-age='' @ map lower_char (nat_digits n)"
    by (simp add: to_lower_ascii w lower_char_eq_sign)
  then show ?thesis
    using lw by (simp add: max_age_of_def trim Let_def Atoi_nat_digits [OF n])
qed

lemma first_max_age_append:
  "\<forall>d \<in> set ds. max_age_of ul d = None \<Longrightarrow>
   first_max_age ul (ds @ e # es) =
     (case max_age_of ul e of Some n \<Rightarrow> Some n | None \<Rightarrow> first_max_age ul es)"
  by (induction ds) auto

lemma staticExtensions_form:
  assumes "map lower_char e \<in> set staticExtensions"
  obtains e' where "e = CHR ''.'' # e'" "CHR ''.'' \<notin> set e'" "CHR ''/'' \<notin> set e'"
    "CHR ''?'' \<notin> set e" "is_ascii e"
proof -
  let ?ok = "\<lambda>x. x \<noteq> [] \<and> hd x = CHR ''.'' \<and> CHR ''.'' \<notin> set (tl x) \<and> CHR ''/'' \<notin> set x \<and>
    CHR ''?'' \<notin> set x \<and> is_ascii x"
  have "list_all ?ok staticExtensions" by code_simp
  then have ok: "?ok (map lower_char e)" unfolding list_all_iff using assms by (rule bspec)
  have same: "lower_char (CHR ''.'') = CHR ''.''" "lower_char (CHR ''/'') = CHR ''/''"
    "lower_char (CHR ''?'') = CHR ''?''" by code_simp+
  obtain c e' where e: "e = c # e'" using ok by (cases e) auto
  have "byte (lower_char c) = byte (CHR ''.'')" using ok e by simp
  then have "byte c = byte (CHR ''.'')" by (simp add: lower_char_def lower_byte_def split: if_splits)
  then have "c = CHR ''.''" unfolding of_char_eq_iff .
  moreover have "lower_char x \<in> set (map lower_char y)" if "x \<in> set y" for x y using that by simp
  then have "CHR ''.'' \<notin> set e'" "CHR ''/'' \<notin> set e" "CHR ''?'' \<notin> set e"
    using ok same e by (metis list.map(2) list.sel(3))+
  ultimately show ?thesis using that e is_ascii_map_lowerD ok by auto
qed

lemma ext_rev_append:
  "CHR ''.'' \<notin> set r \<Longrightarrow> CHR ''/'' \<notin> set r \<Longrightarrow> ext_rev (r @ CHR ''.'' # s) acc = CHR ''.'' # rev r @ acc"
  by (induction r arbitrary: acc) auto

lemma heuristic_ttl_static:
  assumes "0 < def" "def \<le> 9223372036"
    and "CHR ''?'' \<notin> set p" "is_ascii p" "map lower_char e \<in> set staticExtensions"
    and "q = [] \<or> prefix ''?'' q"
  shows "heuristic_ttl ul (p @ e @ q) def = def * second_ns"
proof -
  obtain e' where e: "e = CHR ''.'' # e'" "CHR ''.'' \<notin> set e'" "CHR ''/'' \<notin> set e'"
    "CHR ''?'' \<notin> set e" "is_ascii e"
    using assms(5) by (rule staticExtensions_form)
  have raw: "(case IndexByte (p @ e @ q) (CHR ''?'') of Some i \<Rightarrow> take i (p @ e @ q)
      | None \<Rightarrow> p @ e @ q) = p @ e"
  proof (cases q)
    case Nil
    then have "IndexByte (p @ e @ q) (CHR ''?'') = None" using assms(3) e(4) by simp
    with Nil show ?thesis by (simp only: option.case append_Nil2)
  next
    case (Cons c q')
    then have "p @ e @ q = (p @ e) @ CHR ''?'' # q'" using assms(6) by simp
    moreover have "CHR ''?'' \<notin> set (p @ e)" using assms(3) e(4) by simp
    ultimately have "IndexByte (p @ e @ q) (CHR ''?'') = Some (length (p @ e))"
      by (metis IndexByte_append)
    then show ?thesis by (simp only: option.case) simp
  qed
  have "path_Ext (p @ e) = e"
    using e(2,3) by (simp add: path_Ext_def e(1) ext_rev_append)
  then show ?thesis
    using assms(1,2,5) e(5) unfolding heuristic_ttl_def Let_def raw
    by (simp add: to_lower_ascii seconds_exact)
qed

lemma accepted_no_nul:
  assumes "NewRequest_ok m u" "CHR ''#'' \<notin> set u"
  shows "nul \<notin> set m \<and> nul \<notin> set u"
proof -
  have nul: "\<not> is_token_char nul" "is_ctl nul"
    by code_simp+
  have "Cut u (CHR ''#'') = (u, [], False)"
    using assms(2) by (induction u) auto
  then have "fst (Cut u (CHR ''#'')) = u" by simp
  then have "nul \<notin> set u"
    using assms(1) nul(2) url_Parse_no_ctl unfolding NewRequest_ok_def by (metis not_None_eq)
  moreover have "nul \<notin> set m"
    using assms(1) nul(1) by (auto simp: NewRequest_ok_def list_all_iff)
  ultimately show ?thesis by simp
qed

section \<open>Properties\<close>

text \<open>
  C25: the directives that forbid caching are honoured however they are written. If the
  \<open>Cache-Control\<close> value holds, anywhere in its comma-separated list, a directive spelled \<open>no-store\<close>
  in any mix of cases, with blanks around it and with or without an argument, then neither a
  response nor a request carrying it is cacheable; \<open>no-cache\<close> bars the request, and \<open>private\<close> bars
  the response unless the configuration caches private responses.
\<close>

theorem forbidding_directives_honoured:
  assumes "Header_Get h ''Cache-Control'' = Join (ds @ written i w x # es) (CHR '','')"
    and "\<forall>d \<in> set (ds @ es). CHR '','' \<notin> set d" "CHR '','' \<notin> set (written i w x)"
    and "directive_word w" "directive_tail x"
  shows "(map lower_char w = ''no-store'' \<longrightarrow>
            \<not> IsResponseCacheable ul meth st h n so \<and> \<not> IsRequestCacheable (r\<lparr>rq_Header := h\<rparr>) ro) \<and>
         (map lower_char w = ''no-cache'' \<longrightarrow> \<not> IsRequestCacheable (r\<lparr>rq_Header := h\<rparr>) ro) \<and>
         (map lower_char w = ''private'' \<and> \<not> so_CachePrivate so \<longrightarrow>
            \<not> IsResponseCacheable ul meth st h n so)"
proof -
  have asc: "is_ascii w" if "map lower_char w = dir" "is_ascii dir" for dir
    using that is_ascii_map_lowerD by blast
  have hd: "hasDirective (Header_Get h ''Cache-Control'') dir"
    if "map lower_char w = map lower_char dir" "is_ascii dir" for dir
    unfolding assms(1)
    by (rule hasDirective_written [OF assms(2-5) that(1) _ that(2)])
      (use asc [OF that(1)] that(2) in simp)
  have "map lower_char ''no-store'' = ''no-store''" "map lower_char ''no-cache'' = ''no-cache''"
    "map lower_char ''private'' = ''private''"
    by code_simp+
  then show ?thesis
    using hd [of "''no-store''"] hd [of "''no-cache''"] hd [of "''private''"]
    by (auto simp: IsResponseCacheable_def IsRequestCacheable_def Let_def is_ascii_def)
qed

lemma forbidding_directives_honoured_witness:
  "\<not> IsResponseCacheable id ''GET'' 200
      [(''Cache-Control'', [''max-age=60,  No-Store=x''])] 5 \<lparr>so_MaxEntryBytes = 0, so_CachePrivate = True\<rparr>"
proof -
  let ?h = "[(''Cache-Control'', [''max-age=60,  No-Store=x''])] :: header"
  have "Header_Get ?h ''Cache-Control'' =
      Join ([''max-age=60''] @ written 2 ''No-Store'' ''=x'' # []) (CHR '','')"
    "\<forall>d \<in> set ([''max-age=60''] @ []). CHR '','' \<notin> set d" "CHR '','' \<notin> set (written 2 ''No-Store'' ''=x'')"
    "directive_word ''No-Store''" "directive_tail ''=x''" "map lower_char ''No-Store'' = ''no-store''"
    by code_simp+
  then show ?thesis
    by (intro forbidding_directives_honoured [THEN conjunct1, THEN mp, THEN conjunct1])
qed

text \<open>
  the time to live that \<open>max-age\<close> gives. When the first directive with a usable \<open>max-age\<close> is
  \<open>max-age=n\<close>, in any case and with blanks around it, the time to live is \<open>n\<close> seconds whatever
  \<open>Expires\<close> and the URL say, up to 292 years; from there up to 584 years the multiplication by
  \<^verbatim>\<open>time.Second\<close> overflows to a negative duration, with which \<^verbatim>\<open>Put\<close> is never called.
\<close>

theorem max_age_ttl:
  assumes "Header_Get h ''Cache-Control'' =
      Join (ds @ written i (w @ CHR ''='' # nat_digits n) (spaces j) # es) (CHR '','')"
    and "\<forall>d \<in> set (ds @ es). CHR '','' \<notin> set d" "\<forall>d \<in> set ds. max_age_of ul d = None"
    and "map lower_char w = ''max-age''"
  shows "(int n \<le> 9223372036 \<longrightarrow> TTLFor ul pt h u def now = int n * second_ns) \<and>
         (9223372036 < int n \<and> int n \<le> 18446744073 \<longrightarrow> TTLFor ul pt h u def now < 0)"
proof -
  let ?d = "written i (w @ CHR ''='' # nat_digits n) (spaces j)"
  have "CHR '','' \<notin> set w"
  proof
    assume "CHR '','' \<in> set w"
    then have "lower_char (CHR '','') \<in> set (map lower_char w)" by simp
    then show False by (simp add: assms(4) lower_char_eq_sign)
  qed
  moreover have "CHR '','' \<notin> set (nat_digits n)" using nat_digits_set [of "CHR '',''" n] by (auto simp: is_digit_def)
  ultimately have nd: "CHR '','' \<notin> set ?d" by (auto simp: written_def spaces_def)
  have "?d \<noteq> []" by (simp add: written_def)
  then have "ds @ ?d # es \<noteq> [[]]" by (cases ds) auto
  then have "splitComma (Header_Get h ''Cache-Control'') = ds @ ?d # es"
    unfolding assms(1) by (intro splitComma_Join) (use assms(2) nd in auto)
  then have "int64_range (int n) \<Longrightarrow> TTLFor ul pt h u def now = seconds (int n)"
    by (simp add: TTLFor_def first_max_age_append [OF assms(3)] max_age_of_written [OF assms(4)])
  then show ?thesis
    by (auto simp: seconds_exact seconds_overflow int64_range_def min_int64_def max_int64_def)
qed

lemma max_age_ttl_witness:
  "TTLFor id (\<lambda>_. None) [(''Cache-Control'', [''public, Max-Age=60 ''])] ''http://h/a.css'' 5 0 =
     60 * second_ns"
proof -
  have nd: "nat_digits 60 = ''60''" by (simp add: nat_digits.simps) code_simp
  let ?h = "[(''Cache-Control'', [''public, Max-Age=60 ''])] :: header"
  have "Header_Get ?h ''Cache-Control'' =
      Join ([''public''] @ written 1 (''Max-Age'' @ CHR ''='' # nat_digits 60) (spaces 1) # []) (CHR '','')"
    unfolding nd by code_simp
  moreover have "\<forall>d \<in> set ([''public''] @ []). CHR '','' \<notin> set d"
    "\<forall>d \<in> set [''public'']. max_age_of id d = None" "map lower_char ''Max-Age'' = ''max-age''"
    by code_simp+
  ultimately show ?thesis
    using max_age_ttl [of ?h "[''public'']" 1 "''Max-Age''" 60 1 "[]"] by simp
qed

text \<open>
  the heuristic lifetime. A response without a usable \<open>max-age\<close> whose URL path ends in one of
  the static suffixes, in any case and with or without a query, gets the configured default as its
  lifetime, and it does so not only when \<open>Expires\<close> is absent but also when \<open>Expires\<close> says that
  the response is already stale.
\<close>

theorem stale_static_response_gets_default_ttl:
  assumes "first_max_age ul (splitComma (Header_Get h ''Cache-Control'')) = None"
    and "0 < def" "def \<le> 9223372036"
    and "CHR ''?'' \<notin> set p" "is_ascii p" "map lower_char e \<in> set staticExtensions"
    and "q = [] \<or> prefix ''?'' q"
  shows "(pt (Header_Get h ''Expires'') = Some t \<and> t \<le> now \<longrightarrow>
            TTLFor ul pt h (p @ e @ q) def now = def * second_ns) \<and>
         (Header_Get h ''Expires'' = '''' \<longrightarrow> TTLFor ul pt h (p @ e @ q) def now = def * second_ns)"
proof -
  have "heuristic_ttl ul (p @ e @ q) def = def * second_ns"
    using assms(2-) by (simp add: heuristic_ttl_static)
  then show ?thesis using assms(1) by (auto simp: TTLFor_def Let_def)
qed

lemma stale_static_response_gets_default_ttl_witness:
  "TTLFor id (\<lambda>_. Some 100) [(''Expires'', [''Thu, 01 Jan 1970 00:00:00 GMT''])] ''http://h/A.CSS?v=1'' 300 200
     = 300 * second_ns"
proof -
  let ?h = "[(''Expires'', [''Thu, 01 Jan 1970 00:00:00 GMT''])] :: header"
  have "first_max_age id (splitComma (Header_Get ?h ''Cache-Control'')) = None"
    "CHR ''?'' \<notin> set ''http://h/A''" "is_ascii ''http://h/A''" "map lower_char ''.CSS'' \<in> set staticExtensions"
    "prefix ''?'' ''?v=1''"
    by code_simp+
  then show ?thesis
    using stale_static_response_gets_default_ttl
      [of id ?h 300 "''http://h/A''" "''.CSS''" "''?v=1''" "\<lambda>_. Some 100" 100 200] by simp
qed

text \<open>
  C26: two requests share a cache key only when their methods, their URLs and their
  \<open>Accept-Encoding\<close> values agree: the zero byte the key is joined with occurs in neither a method
  nor a URL that \<^verbatim>\<open>http.NewRequest\<close> accepts (fragments aside, which the key keeps apart too).
\<close>

theorem cache_key_separates:
  assumes "NewRequest_ok m u" "NewRequest_ok m' u'" "CHR ''#'' \<notin> set u" "CHR ''#'' \<notin> set u'"
  shows "BuildKey m u h = BuildKey m' u' h' \<longleftrightarrow>
    m = m' \<and> u = u' \<and> Header_Get h ''Accept-Encoding'' = Header_Get h' ''Accept-Encoding''"
  using BuildKey_inj [of m u m' u' h h'] accepted_no_nul [OF assms(1,3)] accepted_no_nul [OF assms(2,4)]
  by (auto simp: BuildKey_def)

lemma cache_key_separates_witness:
  "BuildKey ''GET'' ''http://a/x'' [(''Accept-Encoding'', [''gzip''])] \<noteq>
   BuildKey ''GET'' ''http://a/x'' []"
proof -
  have "NewRequest_ok ''GET'' ''http://a/x''" "CHR ''#'' \<notin> set ''http://a/x''"
    "Header_Get [(''Accept-Encoding'', [''gzip''])] ''Accept-Encoding'' \<noteq> Header_Get [] ''Accept-Encoding''"
    by code_simp+
  then show ?thesis
    using cache_key_separates [of "''GET''" "''http://a/x''" "''GET''" "''http://a/x''"
      "[(''Accept-Encoding'', [''gzip''])]" "[]"] by blast
qed

text \<open>A header with several lines of \<open>Cache-Control\<close> and of \<open>Vary\<close>.\<close>

definition field_lines ::
  "string \<Rightarrow> string list \<Rightarrow> string \<Rightarrow> string list \<Rightarrow> header \<Rightarrow> header"
where
  "field_lines cc ccs v vs h =
     AList.update ''Vary'' (v # vs) (AList.update ''Cache-Control'' (cc # ccs) h)"

text \<open>
  only the first field line counts. Whatever further \<open>Cache-Control\<close> and \<open>Vary\<close> lines a
  response carries, the decisions are those for the first line of each: a response with the lines
  \<open>max-age=60\<close> and \<open>no-store\<close> is stored for a minute, and one with the lines
  \<open>Accept-Encoding\<close> and \<open>Cookie\<close> of \<open>Vary\<close> is stored too.
\<close>

theorem further_field_lines_ignored:
  "IsResponseCacheable ul meth st (field_lines cc ccs v vs h) n so =
     IsResponseCacheable ul meth st (field_lines cc [] v [] h) n so \<and>
   TTLFor ul pt (field_lines cc ccs v vs h) u def now = TTLFor ul pt (field_lines cc [] v [] h) u def now"
proof -
  have "canonical_key ''Cache-Control'' = ''Cache-Control''" "canonical_key ''Vary'' = ''Vary''"
    "canonical_key ''Set-Cookie'' = ''Set-Cookie''" "canonical_key ''Expires'' = ''Expires''"
    by code_simp+
  then have "Header_Get (field_lines cc ccs v vs h) ''Cache-Control'' = cc"
    "Header_Get (field_lines cc ccs v vs h) ''Vary'' = v"
    "Header_Get (field_lines cc ccs v vs h) ''Set-Cookie'' = Header_Get h ''Set-Cookie''"
    "Header_Get (field_lines cc ccs v vs h) ''Expires'' = Header_Get h ''Expires''" for ccs vs
    unfolding Header_Get_def field_lines_def by simp_all
  then show ?thesis unfolding IsResponseCacheable_def TTLFor_def by (simp only:)
qed

end
