(* ===== verification/Max_Transport.thy ===== *)
theory Max_Transport
  imports Go_Net
begin

text \<open>
  \<^verbatim>\<open>internal/maxtransport/maxapi.go\<close>: the deduplication window, the construction of a
  \<^verbatim>\<open>MaxTransport\<close>, \<^verbatim>\<open>Send\<close>, and the polling goroutine as a step relation whose labels record
  what it does to the outside: the polls, the waits, the messages put on the channel.

  Parameters: the environment variables, \<^verbatim>\<open>client.Do\<close> (any function from requests to outcomes),
  \<^verbatim>\<open>http.ParseTime\<close>, \<^verbatim>\<open>time.Parse\<close> and the JSON codec. Instants are nanoseconds.
\<close>

section \<open>The deduplication window\<close>

record dedupeSet =
  dd_ids :: "(string, unit) gomap"
  dd_fifo :: "string list"
  dd_max :: int

text \<open>\<^verbatim>\<open>make([]string, 0, max)\<close> panics (\<open>None\<close>) on a negative capacity.\<close>

definition newDedupeSet :: "int \<Rightarrow> dedupeSet option" where
  "newDedupeSet mx =
     (if mx < 0 then None else Some \<lparr>dd_ids = [], dd_fifo = [], dd_max = mx\<rparr>)"

definition dedupe_seen :: "dedupeSet \<Rightarrow> string \<Rightarrow> bool" where
  "dedupe_seen d i \<longleftrightarrow> map_of (dd_ids d) i \<noteq> None"

text \<open>\<^verbatim>\<open>d.fifo[0]\<close> panics (\<open>None\<close>) when the window is full and empty at once.\<close>

definition dedupe_add :: "dedupeSet \<Rightarrow> string \<Rightarrow> dedupeSet option" where
  "dedupe_add d i =
     (if int (length (dd_fifo d)) \<ge> dd_max d then
        (case dd_fifo d of
           [] \<Rightarrow> None
         | oldest # rest \<Rightarrow>
             Some (d\<lparr>dd_fifo := rest @ [i],
                     dd_ids := AList.update i () (AList.delete oldest (dd_ids d))\<rparr>))
      else Some (d\<lparr>dd_ids := AList.update i () (dd_ids d), dd_fifo := dd_fifo d @ [i]\<rparr>))"

definition dedupe_ok :: "dedupeSet \<Rightarrow> bool" where
  "dedupe_ok d \<longleftrightarrow>
     0 < dd_max d \<and> int (length (dd_fifo d)) \<le> dd_max d \<and> distinct (dd_fifo d) \<and>
     gomap_ok (dd_ids d) \<and> fst ` set (dd_ids d) = set (dd_fifo d)"

lemma newDedupeSet_ok: "0 < mx \<Longrightarrow> \<exists>d. newDedupeSet mx = Some d \<and> dedupe_ok d \<and> dd_max d = mx \<and> dd_fifo d = []"
  by (simp add: newDedupeSet_def dedupe_ok_def)

lemma dedupe_seen_iff: "dedupe_ok d \<Longrightarrow> dedupe_seen d i \<longleftrightarrow> i \<in> set (dd_fifo d)"
  by (auto simp: dedupe_ok_def dedupe_seen_def map_of_eq_None_iff)

lemma dedupe_add_ok:
  assumes ok: "dedupe_ok d" and new: "\<not> dedupe_seen d i"
  obtains d' where "dedupe_add d i = Some d'" "dedupe_ok d'" "dd_max d' = dd_max d"
    "dd_fifo d' = drop (Suc (length (dd_fifo d)) - nat (dd_max d)) (dd_fifo d @ [i])"
proof -
  have ni: "i \<notin> set (dd_fifo d)" using new dedupe_seen_iff [OF ok] by simp
  note d = ok [unfolded dedupe_ok_def]
  have keys: "fst ` set (AList.update i () m) = insert i (fst ` set m)" for m :: "(string, unit) gomap"
    by (simp add: dom_update)
  show ?thesis
  proof (cases "int (length (dd_fifo d)) \<ge> dd_max d")
    case True
    then obtain x xs where f: "dd_fifo d = x # xs" using d by (cases "dd_fifo d") auto
    have "fst ` set (AList.delete x (dd_ids d)) = set (dd_fifo d) - {x}"
      using d by (metis delete_keys list.set_map set_removeAll)
    then have "fst ` set (AList.delete x (dd_ids d)) = set xs" using d f by auto
    moreover have "nat (dd_max d) = Suc (length xs)" using d True f by (simp add: nat_eq_iff)
    ultimately show ?thesis
      using that [of "d\<lparr>dd_fifo := xs @ [i], dd_ids := AList.update i () (AList.delete x (dd_ids d))\<rparr>"]
        True d f ni by (auto simp: dedupe_add_def dedupe_ok_def keys)
  next
    case False
    then show ?thesis
      using that [of "d\<lparr>dd_ids := AList.update i () (dd_ids d), dd_fifo := dd_fifo d @ [i]\<rparr>"] d ni
      by (auto simp: dedupe_add_def dedupe_ok_def keys)
  qed
qed

section \<open>The contract of a bounded window\<close>

definition lastn :: "nat \<Rightarrow> 'a list \<Rightarrow> 'a list" where
  "lastn k xs = drop (length xs - k) xs"

text \<open>Two equal elements of \<open>xs\<close> have at least \<open>k\<close> elements between them.\<close>

definition spaced :: "nat \<Rightarrow> 'a list \<Rightarrow> bool" where
  "spaced k xs \<longleftrightarrow> (\<forall>a x b c. xs = a @ x # b @ x # c \<longrightarrow> k \<le> length b)"

lemma spaced_Nil [simp]: "spaced k []"
  by (simp add: spaced_def)

lemma spaced_snoc:
  assumes "spaced k xs" "x \<notin> set (lastn k xs)" shows "spaced k (xs @ [x])"
  unfolding spaced_def
proof (intro allI impI)
  fix a y b c assume eq: "xs @ [x] = a @ y # b @ y # c"
  show "k \<le> length b"
  proof (cases c rule: rev_cases)
    case Nil
    then have xs: "xs = a @ y # b" and "y = x" using eq by simp_all
    show ?thesis
    proof (rule ccontr)
      assume "\<not> k \<le> length b"
      then have "y \<in> set (lastn k xs)" by (simp add: lastn_def xs drop_Cons' Suc_diff_le)
      with assms(2) \<open>y = x\<close> show False by simp
    qed
  next
    case (snoc c' z)
    then have "xs = a @ y # b @ y # c'" using eq by simp
    then show ?thesis using assms(1) unfolding spaced_def by blast
  qed
qed

lemma lastn_snoc: "lastn k (lastn k xs @ [x]) = lastn k (xs @ [x])"
proof (cases "k \<le> length xs")
  case True
  then show ?thesis
    by (cases k) (simp_all add: lastn_def Suc_diff_Suc Suc_diff_le flip: Suc_diff_le)
qed (simp add: lastn_def)

locale bounded_window =
  fixes ok :: "'w \<Rightarrow> bool" and seen :: "'w \<Rightarrow> 'a \<Rightarrow> bool" and add :: "'w \<Rightarrow> 'a \<Rightarrow> 'w"
    and contents :: "'w \<Rightarrow> 'a list" and cap :: "'w \<Rightarrow> nat"
  assumes seen_iff: "ok w \<Longrightarrow> seen w x \<longleftrightarrow> x \<in> set (contents w)"
    and add_ok: "ok w \<Longrightarrow> \<not> seen w x \<Longrightarrow> ok (add w x)"
    and add_cap: "ok w \<Longrightarrow> \<not> seen w x \<Longrightarrow> cap (add w x) = cap w"
    and add_contents: "ok w \<Longrightarrow> \<not> seen w x \<Longrightarrow> contents (add w x) = lastn (cap w) (contents w @ [x])"
begin

text \<open>\<open>w\<close> is what the window holds after the elements \<open>xs\<close> have been let in.\<close>

definition holds :: "'w \<Rightarrow> 'a list \<Rightarrow> bool" where
  "holds w xs \<longleftrightarrow> ok w \<and> contents w = lastn (cap w) xs \<and> spaced (cap w) xs"

lemma holds_start: "ok w \<Longrightarrow> contents w = [] \<Longrightarrow> holds w []"
  by (simp add: holds_def lastn_def)

lemma holds_add: "holds w xs \<Longrightarrow> \<not> seen w x \<Longrightarrow> holds (add w x) (xs @ [x])"
  by (simp add: holds_def add_ok add_cap add_contents lastn_snoc seen_iff spaced_snoc)

lemma holds_bound: "holds w xs \<Longrightarrow> length (contents w) \<le> cap w"
  by (simp add: holds_def lastn_def)

lemma holds_spaced: "holds w xs \<Longrightarrow> spaced (cap w) xs"
  by (simp add: holds_def)

end

interpretation dw: bounded_window dedupe_ok dedupe_seen "\<lambda>d i. the (dedupe_add d i)" dd_fifo
  "\<lambda>d. nat (dd_max d)"
proof unfold_locales
  fix d i
  assume ok: "dedupe_ok d"
  show "dedupe_seen d i \<longleftrightarrow> i \<in> set (dd_fifo d)" by (rule dedupe_seen_iff [OF ok])
  assume new: "\<not> dedupe_seen d i"
  show "dedupe_ok (the (dedupe_add d i))"
    "nat (dd_max (the (dedupe_add d i))) = nat (dd_max d)"
    "dd_fifo (the (dedupe_add d i)) = lastn (nat (dd_max d)) (dd_fifo d @ [i])"
    by (rule dedupe_add_ok [OF ok new]; simp add: lastn_def)+
qed

section \<open>Errors and construction\<close>

text \<open>
  How \<^verbatim>\<open>client.Do\<close> and reading a body fail: \<^verbatim>\<open>errors.Is(err, context.Canceled)\<close>,
  \<^verbatim>\<open>errors.Is(err, context.DeadlineExceeded)\<close> (which the client's own timeout satisfies), or neither.
\<close>

datatype net_err = NetCanceled | NetDeadline | NetOther

datatype max_error =
    TokenNotSet string
  | EmptyText
  | TextTooLong int int
  | MarshalSend
  | BuildSend
  | ParsePollURL
  | DoFailed string net_err
  | DecodePoll net_err
  | authError int
  | EndpointNotFound string
  | RejectedTooLarge string
  | RateLimitError int
  | UnexpectedStatus string int
  | ReceiveStarted

record MaxTransportConfig =
  tr_BaseURL :: string
  tr_TokenEnv :: string
  tr_PeerChatID :: string
  tr_FromHandle :: string
  tr_PollIntervalMs :: int
  tr_PollTimeoutSec :: int
  tr_SafeChars :: int
  tr_DedupeMaxIDs :: int

text \<open>\<open>mt_clientTimeout\<close> is the \<^verbatim>\<open>Timeout\<close> of \<^verbatim>\<open>client\<close>; \<open>mt_on429\<close>: a callback is registered.\<close>

record MaxTransport =
  mt_baseURL :: string
  mt_token :: string
  mt_peerChatID :: string
  mt_fromHandle :: string
  mt_pollInterval :: int
  mt_pollTimeoutSec :: int
  mt_safeChars :: int
  mt_dedupeMaxIDs :: int
  mt_clientTimeout :: int
  mt_closed :: bool
  mt_closeOnce :: bool
  mt_receiveStarted :: bool
  mt_on429 :: bool

definition NewMaxTransport ::
  "(string \<Rightarrow> string) \<Rightarrow> MaxTransportConfig \<Rightarrow> max_error + MaxTransport"
where
  "NewMaxTransport getenv cfg =
     (let token = getenv (tr_TokenEnv cfg) in
      if token = '''' then Inl (TokenNotSet (tr_TokenEnv cfg))
      else
        let pollInterval0 = wrap64 (tr_PollIntervalMs cfg * 1000000);
            pollInterval = (if pollInterval0 \<le> 0 then second_ns else pollInterval0);
            pollTimeoutSec = (if tr_PollTimeoutSec cfg \<le> 0 then 20 else tr_PollTimeoutSec cfg);
            httpTimeout = seconds (wrap64 (pollTimeoutSec + 10));
            dedupeMaxIDs = (if tr_DedupeMaxIDs cfg \<le> 0 then 4096 else tr_DedupeMaxIDs cfg)
        in Inr \<lparr>mt_baseURL = TrimRight (tr_BaseURL cfg) (CHR ''/''),
                mt_token = token,
                mt_peerChatID = tr_PeerChatID cfg,
                mt_fromHandle = tr_FromHandle cfg,
                mt_pollInterval = pollInterval,
                mt_pollTimeoutSec = pollTimeoutSec,
                mt_safeChars = tr_SafeChars cfg,
                mt_dedupeMaxIDs = dedupeMaxIDs,
                mt_clientTimeout = httpTimeout,
                mt_closed = False,
                mt_closeOnce = False,
                mt_receiveStarted = False,
                mt_on429 = False\<rparr>)"

definition WithOn429 :: "MaxTransport \<Rightarrow> MaxTransport" where
  "WithOn429 m = m\<lparr>mt_on429 := True\<rparr>"

text \<open>\<^verbatim>\<open>Close\<close>: \<^verbatim>\<open>close\<close> of a closed channel panics (\<open>None\<close>); \<^verbatim>\<open>closeOnce\<close> is set even then.\<close>

definition Close :: "MaxTransport \<Rightarrow> MaxTransport option" where
  "Close m =
     (if mt_closeOnce m then Some m
      else if mt_closed m then None
      else Some (m\<lparr>mt_closeOnce := True, mt_closed := True\<rparr>))"

section \<open>Responses\<close>

text \<open>An HTTP response as the transport reads it, and the outcome of \<^verbatim>\<open>client.Do\<close>.\<close>

record api_response =
  rs_Status :: int
  rs_Header :: header
  rs_Body :: body

type_synonym do_result = "net_err + api_response"

definition parseRetryAfter :: "(string \<Rightarrow> int option) \<Rightarrow> int \<Rightarrow> string \<Rightarrow> int" where
  "parseRetryAfter pt now hdr =
     (if hdr = '''' then 0
      else
        let fallback =
          (case pt hdr of
             Some t \<Rightarrow> (let d = time_Sub t now in if d > 0 then d else 0)
           | None \<Rightarrow> 0)
        in case Atoi (TrimSpace hdr) of
             Some secs \<Rightarrow> if secs > 0 then seconds secs else fallback
           | None \<Rightarrow> fallback)"

text \<open>\<^verbatim>\<open>checkStatus\<close>: the error, and how often \<^verbatim>\<open>on429\<close> is called.\<close>

definition checkStatus ::
  "(string \<Rightarrow> int option) \<Rightarrow> int \<Rightarrow> MaxTransport \<Rightarrow> api_response \<Rightarrow> string \<Rightarrow> max_error err \<times> nat"
where
  "checkStatus pt now m resp op =
     (let st = rs_Status resp in
      if 200 \<le> st \<and> st < 300 then (None, 0)
      else if st = 401 \<or> st = 403 then (Some (authError st), 0)
      else if st = 404 then (Some (EndpointNotFound op), 0)
      else if st = 413 then (Some (RejectedTooLarge op), 0)
      else if st = 429 then
        (let ra = parseRetryAfter pt now (Header_Get (rs_Header resp) ''Retry-After'')
         in (Some (RateLimitError ra), if mt_on429 m then 1 else 0))
      else (Some (UnexpectedStatus op st), 0))"

section \<open>Send\<close>

record maxSendRequest =
  sr_ChatID :: string
  sr_Text :: string

text \<open>
  A request as \<^verbatim>\<open>client.Do\<close> puts it on the wire: the query is kept as the parameters it encodes,
  and a fragment is not sent.
\<close>

record api_request =
  aq_Method :: string
  aq_URL :: string
  aq_Query :: "(string, string list) gomap"
  aq_Header :: header
  aq_Body :: string

definition send_headers :: "MaxTransport \<Rightarrow> header" where
  "send_headers m =
     Header_Set ''Content-Type'' ''application/json''
       (Header_Set ''Authorization'' (''Bearer '' @ mt_token m) [])"

text \<open>
  \<^verbatim>\<open>Send\<close>: the error, the requests made (none or one) and the calls of \<^verbatim>\<open>on429\<close>. \<open>len([]rune(s))\<close>
  counts code points.
\<close>

definition Send ::
  "(string \<Rightarrow> int option) \<Rightarrow> int \<Rightarrow> (maxSendRequest \<Rightarrow> string option) \<Rightarrow> (api_request \<Rightarrow> do_result) \<Rightarrow>
   MaxTransport \<Rightarrow> string \<Rightarrow> max_error err \<times> api_request list \<times> nat"
where
  "Send pt now marshal do m text =
     (if text = '''' then (Some EmptyText, [], 0)
      else if mt_safeChars m > 0 \<and> int (length (runes text)) > mt_safeChars m then
        (Some (TextTooLong (int (length (runes text))) (mt_safeChars m)), [], 0)
      else case marshal \<lparr>sr_ChatID = mt_peerChatID m, sr_Text = text\<rparr> of
        None \<Rightarrow> (Some MarshalSend, [], 0)
      | Some bdy \<Rightarrow>
          let u = mt_baseURL m @ ''/messages'' in
          if \<not> NewRequest_ok ''POST'' u then (Some BuildSend, [], 0)
          else
            let req = \<lparr>aq_Method = ''POST'', aq_URL = u, aq_Query = [], aq_Header = send_headers m,
                       aq_Body = bdy\<rparr>
            in case do req of
                 Inl e \<Rightarrow> (Some (DoFailed ''send'' e), [req], 0)
               | Inr resp \<Rightarrow>
                   (case checkStatus pt now m resp ''send'' of (e, n) \<Rightarrow> (e, [req], n)))"

section \<open>One poll\<close>

record maxAPIMessage =
  am_MessageID :: string
  am_From :: string
  am_Text :: string
  am_CreatedAt :: string

text \<open>
  \<^verbatim>\<open>url.ParseQuery\<close> on the query the base URL may already carry, as \<^verbatim>\<open>u.Query()\<close> uses it: pairs
  separated by \<open>&\<close>, a pair with a semicolon or a bad escape skipped.
\<close>

fun query_unescape :: "string \<Rightarrow> string option" where
  "query_unescape [] = Some []"
| "query_unescape (c # cs) =
     (if c = CHR ''%'' then
        (case cs of
           h1 # h2 # rest \<Rightarrow>
             if is_hex h1 \<and> is_hex h2
             then map_option (Cons (char_of (unhex h1 * 16 + unhex h2))) (query_unescape rest)
             else None
         | _ \<Rightarrow> None)
      else map_option (Cons (if c = CHR ''+'' then CHR '' '' else c)) (query_unescape cs))"

definition add_pair :: "string \<Rightarrow> (string, string list) gomap \<Rightarrow> (string, string list) gomap" where
  "add_pair p q =
     (if p = '''' \<or> CHR '';'' \<in> set p then q
      else case Cut p (CHR ''='') of (k, v, found) \<Rightarrow>
        (case (query_unescape k, query_unescape v) of
           (Some k', Some v') \<Rightarrow>
             AList.update k' ((case map_of q k' of None \<Rightarrow> [] | Some vs \<Rightarrow> vs) @ [v']) q
         | _ \<Rightarrow> q))"

definition ParseQuery :: "string \<Rightarrow> (string, string list) gomap" where
  "ParseQuery s = fold add_pair (Split s (CHR ''&'')) []"

definition url_Query :: "string \<Rightarrow> (string, string list) gomap" where
  "url_Query raw = ParseQuery (fst (snd (Cut (fst (Cut raw (CHR ''#''))) (CHR ''?''))))"

definition poll_request :: "MaxTransport \<Rightarrow> string \<Rightarrow> api_request" where
  "poll_request m afterID =
     (let u = mt_baseURL m @ ''/messages/poll'';
          q = AList.update ''timeout'' [Itoa (mt_pollTimeoutSec m)]
                (AList.update ''chat_id'' [mt_peerChatID m] (url_Query u));
          q = (if afterID \<noteq> '''' then AList.update ''after_id'' [afterID] q else q)
      in \<lparr>aq_Method = ''GET'', aq_URL = fst (Cut (fst (Cut u (CHR ''#''))) (CHR ''?'')), aq_Query = q,
          aq_Header = Header_Set ''Authorization'' (''Bearer '' @ mt_token m) [], aq_Body = ''''\<rparr>)"

text \<open>\<^verbatim>\<open>pollOnce\<close>: its result, the requests made and the calls of \<^verbatim>\<open>on429\<close> in \<^verbatim>\<open>checkStatus\<close>.\<close>

definition pollOnce ::
  "(string \<Rightarrow> int option) \<Rightarrow> int \<Rightarrow> (body \<Rightarrow> net_err + maxAPIMessage list) \<Rightarrow>
   (api_request \<Rightarrow> do_result) \<Rightarrow> MaxTransport \<Rightarrow> string \<Rightarrow>
   (max_error + maxAPIMessage list) \<times> api_request list \<times> nat"
where
  "pollOnce pt now decode do m afterID =
     (if url_Parse (mt_baseURL m @ ''/messages/poll'') = None then (Inl ParsePollURL, [], 0)
      else
        let req = poll_request m afterID in
        case do req of
          Inl e \<Rightarrow> (Inl (DoFailed ''poll'' e), [req], 0)
        | Inr resp \<Rightarrow>
            (case checkStatus pt now m resp ''poll'' of
               (Some e, n) \<Rightarrow> (Inl e, [req], n)
             | (None, n) \<Rightarrow>
                 (case decode (rs_Body resp) of
                    Inl e \<Rightarrow> (Inl (DecodePoll e), [req], n)
                  | Inr ms \<Rightarrow> (Inr ms, [req], n))))"

section \<open>The polling goroutine\<close>

record message =
  msg_ID :: string
  msg_From :: string
  msg_Text :: string
  msg_CreatedAt :: int

definition chan_cap :: nat where "chan_cap = 256"

text \<open>
  Where the goroutine stands: at the head of the loop, inside \<^verbatim>\<open>pollOnce\<close>, in one of the
  \<^verbatim>\<open>select\<close> statements on a timer, in the loop over the messages of a response (with the flag
  \<^verbatim>\<open>len(messages) == 0\<close>), in the \<^verbatim>\<open>select\<close> that sends, or returned.
\<close>

datatype poll_pc =
    Checking
  | Requesting
  | Waiting int
  | Handling "maxAPIMessage list" bool
  | Sending message "maxAPIMessage list" bool
  | Returned

record poll_state =
  pl_pc :: poll_pc
  pl_after :: string
  pl_dedupe :: dedupeSet
  pl_chan :: "message list"
  pl_closed :: bool
  pl_done :: bool
  pl_on429 :: nat

text \<open>The world of the goroutine: \<^verbatim>\<open>http.ParseTime\<close>, \<^verbatim>\<open>time.Parse(RFC3339)\<close> and the JSON decoder.\<close>

record max_env =
  me_ParseTime :: "string \<Rightarrow> int option"
  me_ParseRFC3339 :: "string \<Rightarrow> int option"
  me_decode :: "body \<Rightarrow> net_err + maxAPIMessage list"

text \<open>What the loop does after \<^verbatim>\<open>pollOnce\<close>: where it goes, and its own call of \<^verbatim>\<open>on429\<close>.\<close>

definition is_ctx_error :: "max_error \<Rightarrow> bool" where
  "is_ctx_error e \<longleftrightarrow>
     (case e of
        DoFailed op ne \<Rightarrow> ne = NetCanceled \<or> ne = NetDeadline
      | DecodePoll ne \<Rightarrow> ne = NetCanceled \<or> ne = NetDeadline
      | _ \<Rightarrow> False)"

definition after_poll :: "MaxTransport \<Rightarrow> (max_error + maxAPIMessage list) \<Rightarrow> poll_pc \<times> nat" where
  "after_poll m r =
     (case r of
        Inl e \<Rightarrow>
          if is_ctx_error e then (Returned, 0)
          else (case e of
                  authError c \<Rightarrow> (Returned, 0)
                | RateLimitError ra \<Rightarrow>
                    (Waiting (if ra \<le> 0 then mt_pollInterval m else ra), if mt_on429 m then 1 else 0)
                | _ \<Rightarrow> (Waiting (mt_pollInterval m), 0))
      | Inr ms \<Rightarrow> (Handling ms (ms = []), 0))"

text \<open>The time stamp of a message: \<open>now\<close> unless the message carries a readable one.\<close>

definition created_at :: "max_env \<Rightarrow> int \<Rightarrow> maxAPIMessage \<Rightarrow> int" where
  "created_at env now a =
     (if am_CreatedAt a \<noteq> '''' then
        (case me_ParseRFC3339 env (am_CreatedAt a) of Some t \<Rightarrow> t | None \<Rightarrow> now)
      else now)"

definition out_message :: "max_env \<Rightarrow> int \<Rightarrow> maxAPIMessage \<Rightarrow> message" where
  "out_message env now a =
     \<lparr>msg_ID = am_MessageID a, msg_From = am_From a, msg_Text = am_Text a,
      msg_CreatedAt = created_at env now a\<rparr>"

text \<open>
  The body of the loop over the messages up to the \<^verbatim>\<open>select\<close>: skip a known identifier, record a
  new one, skip an echo, otherwise send. \<open>None\<close> is a panic in \<^verbatim>\<open>dedupe.add\<close>.
\<close>

definition is_known :: "poll_state \<Rightarrow> maxAPIMessage \<Rightarrow> bool" where
  "is_known s a \<longleftrightarrow> am_MessageID a \<noteq> '''' \<and> dedupe_seen (pl_dedupe s) (am_MessageID a)"

definition is_echo :: "MaxTransport \<Rightarrow> maxAPIMessage \<Rightarrow> bool" where
  "is_echo m a \<longleftrightarrow> mt_fromHandle m \<noteq> '''' \<and> am_From a = mt_fromHandle m"

definition record_id :: "maxAPIMessage \<Rightarrow> poll_state \<Rightarrow> poll_state option" where
  "record_id a s =
     (if am_MessageID a \<noteq> '''' then
        (case dedupe_add (pl_dedupe s) (am_MessageID a) of
           None \<Rightarrow> None
         | Some d \<Rightarrow> Some (s\<lparr>pl_dedupe := d, pl_after := am_MessageID a\<rparr>))
      else Some s)"

definition handle_message ::
  "max_env \<Rightarrow> MaxTransport \<Rightarrow> int \<Rightarrow> maxAPIMessage \<Rightarrow> maxAPIMessage list \<Rightarrow> bool \<Rightarrow> poll_state \<Rightarrow> poll_state option"
where
  "handle_message env m now a rest e s =
     (if is_known s a then Some (s\<lparr>pl_pc := Handling rest e\<rparr>)
      else case record_id a s of
        None \<Rightarrow> None
      | Some s' \<Rightarrow>
          if is_echo m a then Some (s'\<lparr>pl_pc := Handling rest e\<rparr>)
          else Some (s'\<lparr>pl_pc := Sending (out_message env now a) rest e\<rparr>))"

text \<open>Labels: the requests made, their results, the identifiers let in, the waits, the channel.\<close>

datatype poll_event =
    Check
  | Polled "api_request list" "max_error + maxAPIMessage list"
  | Slept int
  | Accept string
  | Skip
  | Pause
  | Deliver message
  | Return
  | Consume message
  | Cancel

definition return_state :: "poll_state \<Rightarrow> poll_state" where
  "return_state s = s\<lparr>pl_pc := Returned, pl_closed := True\<rparr>"

definition accept_event :: "poll_state \<Rightarrow> maxAPIMessage \<Rightarrow> poll_event" where
  "accept_event s a = (if am_MessageID a = '''' \<or> is_known s a then Skip else Accept (am_MessageID a))"

text \<open>
  One step of the goroutine, of its consumer (which takes from the channel), or of the outside
  (\<^verbatim>\<open>pollCtx\<close> becomes done by the caller's cancellation or by \<^verbatim>\<open>Close\<close>). Where a \<^verbatim>\<open>select\<close> has two
  ready branches either may be taken.
\<close>

inductive poll_step :: "max_env \<Rightarrow> MaxTransport \<Rightarrow> poll_state \<Rightarrow> poll_event \<Rightarrow> poll_state \<Rightarrow> bool"
  for env m where
  check_done: "pl_pc s = Checking \<Longrightarrow> pl_done s \<Longrightarrow> poll_step env m s Return (return_state s)"
| check_go: "pl_pc s = Checking \<Longrightarrow> \<not> pl_done s \<Longrightarrow> poll_step env m s Check (s\<lparr>pl_pc := Requesting\<rparr>)"
| polled:
    "pl_pc s = Requesting \<Longrightarrow>
     pollOnce (me_ParseTime env) now (me_decode env) do m (pl_after s) = (r, reqs, n) \<Longrightarrow>
     after_poll m r = (pc, n') \<Longrightarrow>
     poll_step env m s (Polled reqs r)
       (s\<lparr>pl_pc := pc, pl_closed := (pc = Returned), pl_on429 := pl_on429 s + n + n'\<rparr>)"
| slept: "pl_pc s = Waiting d \<Longrightarrow> poll_step env m s (Slept d) (s\<lparr>pl_pc := Checking\<rparr>)"
| wait_done: "pl_pc s = Waiting d \<Longrightarrow> pl_done s \<Longrightarrow> poll_step env m s Return (return_state s)"
| handled:
    "pl_pc s = Handling (a # rest) e \<Longrightarrow> handle_message env m now a rest e s = Some s' \<Longrightarrow>
     poll_step env m s (accept_event s a) s'"
| handled_all:
    "pl_pc s = Handling [] e \<Longrightarrow>
     poll_step env m s Pause (s\<lparr>pl_pc := (if e then Waiting (mt_pollInterval m) else Checking)\<rparr>)"
| delivered:
    "pl_pc s = Sending x rest e \<Longrightarrow> length (pl_chan s) < chan_cap \<Longrightarrow>
     poll_step env m s (Deliver x) (s\<lparr>pl_pc := Handling rest e, pl_chan := pl_chan s @ [x]\<rparr>)"
| send_done: "pl_pc s = Sending x rest e \<Longrightarrow> pl_done s \<Longrightarrow> poll_step env m s Return (return_state s)"
| consumed: "pl_chan s = x # xs \<Longrightarrow> poll_step env m s (Consume x) (s\<lparr>pl_chan := xs\<rparr>)"
| cancelled: "poll_step env m s Cancel (s\<lparr>pl_done := True\<rparr>)"

inductive_cases poll_stepE: "poll_step env m s ev s'"

inductive poll_run :: "max_env \<Rightarrow> MaxTransport \<Rightarrow> poll_state \<Rightarrow> poll_event list \<Rightarrow> poll_state \<Rightarrow> bool"
  for env m s0 where
  run_start: "poll_run env m s0 [] s0"
| run_step: "poll_run env m s0 tr s \<Longrightarrow> poll_step env m s ev s' \<Longrightarrow> poll_run env m s0 (tr @ [ev]) s'"

text \<open>\<^verbatim>\<open>Receive\<close>: the second call is an error; the first starts the goroutine.\<close>

definition poll_start :: "MaxTransport \<Rightarrow> poll_state option" where
  "poll_start m =
     (case newDedupeSet (mt_dedupeMaxIDs m) of
        None \<Rightarrow> None
      | Some d \<Rightarrow> Some \<lparr>pl_pc = Checking, pl_after = '''', pl_dedupe = d, pl_chan = [],
                       pl_closed = False, pl_done = mt_closed m, pl_on429 = 0\<rparr>)"

definition Receive :: "MaxTransport \<Rightarrow> (max_error + poll_state option) \<times> MaxTransport" where
  "Receive m =
     (if mt_receiveStarted m then (Inl ReceiveStarted, m)
      else (Inr (poll_start m), m\<lparr>mt_receiveStarted := True\<rparr>))"

section \<open>Invariants of the goroutine\<close>

text \<open>What a trace lets in, delivers and hands to the consumer.\<close>

definition accs :: "poll_event list \<Rightarrow> string list" where
  "accs tr = concat (map (\<lambda>ev. case ev of Accept i \<Rightarrow> [i] | _ \<Rightarrow> []) tr)"

definition delivered :: "poll_event list \<Rightarrow> message list" where
  "delivered tr = concat (map (\<lambda>ev. case ev of Deliver x \<Rightarrow> [x] | _ \<Rightarrow> []) tr)"

definition consumed :: "poll_event list \<Rightarrow> message list" where
  "consumed tr = concat (map (\<lambda>ev. case ev of Consume x \<Rightarrow> [x] | _ \<Rightarrow> []) tr)"

definition pending :: "poll_pc \<Rightarrow> message list" where
  "pending pc = (case pc of Sending x rest e \<Rightarrow> [x] | _ \<Rightarrow> [])"

definition ids_of :: "message list \<Rightarrow> string list" where
  "ids_of xs = filter (\<lambda>i. i \<noteq> '''') (map msg_ID xs)"

definition latest :: "string list \<Rightarrow> string" where
  "latest xs = (if xs = [] then '''' else last xs)"

lemma trace_simps [simp]:
  "accs [] = []" "delivered [] = []" "consumed [] = []"
  "accs (tr @ [ev]) = accs tr @ (case ev of Accept i \<Rightarrow> [i] | _ \<Rightarrow> [])"
  "delivered (tr @ [ev]) = delivered tr @ (case ev of Deliver x \<Rightarrow> [x] | _ \<Rightarrow> [])"
  "consumed (tr @ [ev]) = consumed tr @ (case ev of Consume x \<Rightarrow> [x] | _ \<Rightarrow> [])"
  by (simp_all add: accs_def delivered_def consumed_def)

lemma ids_of_Nil [simp]: "ids_of [] = []"
  by (simp add: ids_of_def)

lemma ids_of_append [simp]: "ids_of (xs @ ys) = ids_of xs @ ids_of ys"
  by (simp add: ids_of_def)

lemma latest_snoc [simp]: "latest (xs @ [x]) = x"
  by (simp add: latest_def)

text \<open>The part about the window, and the part about the channel.\<close>

definition window_inv :: "MaxTransport \<Rightarrow> poll_event list \<Rightarrow> poll_state \<Rightarrow> bool" where
  "window_inv m tr s \<longleftrightarrow>
     dw.holds (pl_dedupe s) (accs tr) \<and> dd_max (pl_dedupe s) = mt_dedupeMaxIDs m \<and>
     pl_after s = latest (accs tr) \<and> '''' \<notin> set (accs tr) \<and>
     subseq (ids_of (delivered tr @ pending (pl_pc s))) (accs tr)"

definition chan_inv :: "MaxTransport \<Rightarrow> poll_event list \<Rightarrow> poll_state \<Rightarrow> bool" where
  "chan_inv m tr s \<longleftrightarrow>
     length (pl_chan s) \<le> chan_cap \<and> delivered tr = consumed tr @ pl_chan s \<and>
     (pl_closed s \<longleftrightarrow> pl_pc s = Returned) \<and>
     (mt_fromHandle m \<noteq> '''' \<longrightarrow>
        (\<forall>x \<in> set (delivered tr @ pending (pl_pc s)). msg_From x \<noteq> mt_fromHandle m))"

text \<open>What handling a message does to the window.\<close>

lemma handle_message_cases:
  assumes "handle_message env m now a rest e s = Some s'"
  obtains
    (skip) "accept_event s a = Skip" "s' = s\<lparr>pl_pc := Handling rest e\<rparr>" "am_MessageID a = '''' \<Longrightarrow> is_echo m a"
  | (anonymous) "accept_event s a = Skip" "am_MessageID a = ''''" "\<not> is_echo m a"
      "s' = s\<lparr>pl_pc := Sending (out_message env now a) rest e\<rparr>"
  | (fresh) d where "accept_event s a = Accept (am_MessageID a)" "am_MessageID a \<noteq> ''''"
      "\<not> dedupe_seen (pl_dedupe s) (am_MessageID a)" "dedupe_add (pl_dedupe s) (am_MessageID a) = Some d"
      "s' = s\<lparr>pl_dedupe := d, pl_after := am_MessageID a,
              pl_pc := (if is_echo m a then Handling rest e else Sending (out_message env now a) rest e)\<rparr>"
  using assms
  by (auto simp: handle_message_def record_id_def is_known_def accept_event_def split: if_splits option.splits)

lemma subseq_snoc: "subseq xs ys \<Longrightarrow> subseq (xs @ [z]) (ys @ [z])"
  by (simp add: list_emb_append_mono)

lemma subseq_grow: "subseq xs ys \<Longrightarrow> subseq xs (ys @ zs)"
  by (metis append_Nil2 list_emb_append_mono subseq_order.refl list_emb_Nil)

lemma window_handled:
  assumes inv: "window_inv m tr s" and pc: "pl_pc s = Handling (a # rest) e"
    and h: "handle_message env m now a rest e s = Some s'"
  shows "window_inv m (tr @ [accept_event s a]) s'"
  using h
proof (cases rule: handle_message_cases)
  case skip
  then show ?thesis using inv pc by (simp add: window_inv_def pending_def)
next
  case anonymous
  then show ?thesis using inv pc by (simp add: window_inv_def pending_def out_message_def ids_of_def)
next
  case (fresh d)
  have "dw.holds d (accs tr @ [am_MessageID a])"
    using dw.holds_add [of "pl_dedupe s" "accs tr" "am_MessageID a"] inv fresh
    by (simp add: window_inv_def)
  moreover have "dd_max d = dd_max (pl_dedupe s)"
    using fresh(4) by (auto simp: dedupe_add_def split: if_splits list.splits)
  ultimately show ?thesis
    using inv pc fresh
    by (simp add: window_inv_def pending_def out_message_def ids_of_def subseq_snoc subseq_grow)
qed

lemma chan_handled:
  assumes inv: "chan_inv m tr s" and pc: "pl_pc s = Handling (a # rest) e"
    and h: "handle_message env m now a rest e s = Some s'"
  shows "chan_inv m (tr @ [accept_event s a]) s'"
  using h by (cases rule: handle_message_cases)
    (use inv pc in \<open>auto simp: chan_inv_def pending_def out_message_def is_echo_def\<close>)

lemma pending_after_poll: "after_poll m r = (pc, n) \<Longrightarrow> pending pc = []"
  by (auto simp: after_poll_def pending_def split: sum.splits if_splits max_error.splits)

lemma window_step: "poll_step env m s ev s' \<Longrightarrow> window_inv m tr s \<Longrightarrow> window_inv m (tr @ [ev]) s'"
proof (induction rule: poll_step.induct)
  case (handled s a rest e now s')
  then show ?case using window_handled by blast
next
  case (polled s do now r reqs n pc n')
  then show ?case using pending_after_poll [of m r pc n'] by (simp add: window_inv_def pending_def)
next
  case (delivered s x rest e)
  then show ?case by (simp add: window_inv_def pending_def)
next
  case (send_done s x rest e)
  then show ?case
    by (auto simp: window_inv_def pending_def return_state_def
        intro: subseq_order.trans [rotated])
qed (simp_all add: window_inv_def pending_def return_state_def)

lemma chan_step: "poll_step env m s ev s' \<Longrightarrow> chan_inv m tr s \<Longrightarrow> chan_inv m (tr @ [ev]) s'"
proof (induction rule: poll_step.induct)
  case (handled s a rest e now s')
  then show ?case using chan_handled by blast
next
  case (polled s do now r reqs n pc n')
  then show ?case using pending_after_poll [of m r pc n'] by (auto simp: chan_inv_def pending_def)
qed (auto simp: chan_inv_def pending_def return_state_def chan_cap_def split: poll_pc.splits)

section \<open>Well-formed transports\<close>

definition transport_ok :: "MaxTransport \<Rightarrow> bool" where
  "transport_ok m \<longleftrightarrow>
     0 < mt_pollInterval m \<and> 0 < mt_pollTimeoutSec m \<and> 0 < mt_dedupeMaxIDs m \<and>
     mt_token m \<noteq> '''' \<and> \<not> HasSuffix (mt_baseURL m) ''/'' \<and> (mt_closed m \<longrightarrow> mt_closeOnce m)"

lemma poll_start_Some:
  "transport_ok m \<Longrightarrow> \<exists>s0. poll_start m = Some s0 \<and> window_inv m [] s0 \<and> chan_inv m [] s0"
  using newDedupeSet_ok [of "mt_dedupeMaxIDs m"]
  by (auto simp: transport_ok_def poll_start_def window_inv_def chan_inv_def latest_def pending_def
      intro: dw.holds_start)

lemma poll_run_inv:
  assumes "transport_ok m" "poll_start m = Some s0" "poll_run env m s0 tr s"
  shows "window_inv m tr s \<and> chan_inv m tr s"
  using assms(3)
  by (induction rule: poll_run.induct)
    (use poll_start_Some [OF assms(1)] assms(2) window_step chan_step in auto)

lemma no_suffix_TrimRight: "\<not> HasSuffix (TrimRight s c) [c]"
  using TrimRight_not_suffix [of s c] by (auto simp: suffix_def)

lemma NewMaxTransport_ok: "NewMaxTransport getenv cfg = Inr m \<Longrightarrow> transport_ok m"
  using no_suffix_TrimRight [where s = "tr_BaseURL cfg" and c = "CHR ''/''"]
  by (auto simp: NewMaxTransport_def transport_ok_def Let_def second_ns_def split: if_splits)

lemma poll_timeout_exact:
  assumes "0 < s" "s \<le> 9223372026" shows "seconds (wrap64 (s + 10)) = (s + 10) * second_ns"
proof -
  have "wrap64 (s + 10) = s + 10"
    by (rule wrap64_id) (use assms in \<open>simp add: int64_range_def min_int64_def max_int64_def\<close>)
  then show ?thesis using assms by (simp add: seconds_exact)
qed

section \<open>Properties\<close>

text \<open>
  C21: construction establishes the invariant of a transport and every operation keeps it: a
  non-empty token, no slash at the end of the base URL, a positive poll interval, poll timeout and
  window size whatever the configuration holds. \<open>Close\<close> never panics and may be called again, and a
  second \<open>Receive\<close> is an error. For poll timeouts up to 292 years the client's own
  timeout exceeds the server-side one by ten seconds.
\<close>

theorem transport_invariant:
  assumes "NewMaxTransport getenv cfg = Inr m"
  shows "transport_ok m \<and> transport_ok (WithOn429 m) \<and> transport_ok (snd (Receive m)) \<and>
    (\<exists>m'. Close m = Some m' \<and> transport_ok m' \<and> mt_closed m' \<and> Close m' = Some m') \<and>
    (\<exists>s0. fst (Receive m) = Inr (Some s0)) \<and> fst (Receive (snd (Receive m))) = Inl ReceiveStarted \<and>
    (mt_pollTimeoutSec m \<le> 9223372026 \<longrightarrow>
       mt_clientTimeout m = (mt_pollTimeoutSec m + 10) * second_ns)"
proof -
  note ok = NewMaxTransport_ok [OF assms]
  have "\<not> mt_receiveStarted m \<and> \<not> mt_closed m \<and> \<not> mt_closeOnce m \<and>
    mt_clientTimeout m = seconds (wrap64 (mt_pollTimeoutSec m + 10))"
    using assms by (auto simp: NewMaxTransport_def Let_def split: if_splits)
  moreover have "transport_ok (WithOn429 m)" "transport_ok (m\<lparr>mt_receiveStarted := True\<rparr>)"
    "transport_ok (m\<lparr>mt_closeOnce := True, mt_closed := True\<rparr>)"
    using ok by (simp_all add: transport_ok_def WithOn429_def)
  moreover have "0 < mt_pollTimeoutSec m" using ok by (simp add: transport_ok_def)
  ultimately show ?thesis
    using ok poll_start_Some [OF ok] poll_timeout_exact [of "mt_pollTimeoutSec m"]
    by (auto simp: Receive_def Close_def)
qed

definition sample_max_config :: MaxTransportConfig where
  "sample_max_config =
     \<lparr>tr_BaseURL = ''http://max/'', tr_TokenEnv = ''TOK'', tr_PeerChatID = ''c1'', tr_FromHandle = ''me'',
      tr_PollIntervalMs = 0, tr_PollTimeoutSec = 20, tr_SafeChars = 4, tr_DedupeMaxIDs = 2\<rparr>"

definition sample_transport :: MaxTransport where
  "sample_transport =
     \<lparr>mt_baseURL = ''http://max'', mt_token = ''s'', mt_peerChatID = ''c1'', mt_fromHandle = ''me'',
      mt_pollInterval = second_ns, mt_pollTimeoutSec = 20, mt_safeChars = 4, mt_dedupeMaxIDs = 2,
      mt_clientTimeout = 30 * second_ns, mt_closed = False, mt_closeOnce = False,
      mt_receiveStarted = False, mt_on429 = False\<rparr>"

lemma sample_transport_new: "NewMaxTransport (\<lambda>_. ''s'') sample_max_config = Inr sample_transport"
  by code_simp

lemma transport_invariant_witness: "\<exists>m'. Close sample_transport = Some m' \<and> Close m' = Some m'"
  using transport_invariant [OF sample_transport_new] by blast

text \<open>
  C20: \<open>Send\<close> touches the network only for a text that is not empty and within the rune limit, and
  then makes exactly one request, to the messages endpoint, with the bearer token; it reports
  success exactly when that request is answered with a 2xx status. A 429 answer gives a
  \<open>RateLimitError\<close> and one call of the registered callback, no other outcome calls it.
\<close>

theorem send_outcomes:
  assumes "Send pt now marshal do m text = (err, reqs, calls)"
  shows "(reqs \<noteq> [] \<longrightarrow> text \<noteq> '''' \<and> (0 < mt_safeChars m \<longrightarrow> int (length (runes text)) \<le> mt_safeChars m)) \<and>
    (\<forall>req \<in> set reqs. reqs = [req] \<and> aq_Method req = ''POST'' \<and> aq_URL req = mt_baseURL m @ ''/messages'' \<and>
       Header_Get (aq_Header req) ''Authorization'' = ''Bearer '' @ mt_token m) \<and>
    (err = None \<longleftrightarrow>
       (\<exists>req resp. reqs = [req] \<and> do req = Inr resp \<and> 200 \<le> rs_Status resp \<and> rs_Status resp < 300)) \<and>
    (calls = (if mt_on429 m \<and> (\<exists>ra. err = Some (RateLimitError ra)) then 1 else 0))"
proof -
  have auth: "Header_Get (send_headers m) ''Authorization'' = ''Bearer '' @ mt_token m"
  proof -
    have "canonical_key ''Authorization'' \<noteq> canonical_key ''Content-Type''" by code_simp
    then show ?thesis by (simp add: send_headers_def Header_Get_Values header_values)
  qed
  have status: "checkStatus pt now m resp ''send'' = (e, n) \<Longrightarrow>
      (e = None \<longleftrightarrow> 200 \<le> rs_Status resp \<and> rs_Status resp < 300) \<and>
      n = (if mt_on429 m \<and> (\<exists>ra. e = Some (RateLimitError ra)) then 1 else 0)" for resp e n
    by (auto simp: checkStatus_def Let_def split: if_splits)
  show ?thesis
    using assms auth
    by (auto simp: Send_def Let_def dest!: status split: if_splits option.splits sum.splits prod.splits)
qed

lemma send_outcomes_witness:
  "fst (Send (\<lambda>_. None) 0 (\<lambda>r. Some (sr_Text r))
      (\<lambda>_. Inr \<lparr>rs_Status = 204, rs_Header = [], rs_Body = \<lparr>bd_data = '''', bd_fails = False\<rparr>\<rparr>)
      sample_transport ''hi'') = None"
proof -
  let ?do = "\<lambda>_. Inr \<lparr>rs_Status = 204, rs_Header = [], rs_Body = \<lparr>bd_data = '''', bd_fails = False\<rparr>\<rparr>"
  let ?r = "\<lparr>aq_Method = ''POST'', aq_URL = ''http://max/messages'', aq_Query = [],
    aq_Header = send_headers sample_transport, aq_Body = ''hi''\<rparr>"
  have "Send (\<lambda>_. None) 0 (\<lambda>r. Some (sr_Text r)) ?do sample_transport ''hi'' = (None, [?r], 0)"
    by code_simp
  from send_outcomes [OF this] this show ?thesis by simp
qed

text \<open>
  C6: no redelivery inside the window. On every trace of the polling goroutine, between two
  admissions of the same message identifier at least \<open>dedupeMaxIDs\<close> other admissions lie, and the
  identifiers of the messages delivered (messages without one apart) form a subsequence of the
  admissions: so a message that the server repeats is delivered once unless that many newer ones
  came in between. The next poll asks for what follows the last admitted identifier.
\<close>

theorem no_redelivery_in_window:
  assumes "transport_ok m" "poll_start m = Some s0" "poll_run env m s0 tr s"
  shows "spaced (nat (mt_dedupeMaxIDs m)) (accs tr) \<and> subseq (ids_of (delivered tr)) (accs tr) \<and>
    pl_after s = latest (accs tr) \<and> length (dd_fifo (pl_dedupe s)) \<le> nat (mt_dedupeMaxIDs m)"
proof -
  have inv: "window_inv m tr s" using poll_run_inv [OF assms] by simp
  then have h: "dw.holds (pl_dedupe s) (accs tr)" "dd_max (pl_dedupe s) = mt_dedupeMaxIDs m"
    by (simp_all add: window_inv_def)
  have "subseq (ids_of (delivered tr)) (accs tr)"
    using inv by (auto simp: window_inv_def intro: subseq_order.trans [rotated])
  then show ?thesis
    using inv dw.holds_spaced [OF h(1)] dw.holds_bound [OF h(1)] h(2) by (simp add: window_inv_def)
qed

text \<open>
  C15: the channel. It never holds more than 256 messages, what the consumer has taken and what the
  channel holds is exactly what was delivered, in that order, the channel is closed exactly when
  the goroutine has returned, and no message of the transport's own handle is ever delivered.
\<close>

theorem channel_fifo_no_echo:
  assumes "transport_ok m" "poll_start m = Some s0" "poll_run env m s0 tr s"
  shows "length (pl_chan s) \<le> 256 \<and> delivered tr = consumed tr @ pl_chan s \<and>
    (pl_closed s \<longleftrightarrow> pl_pc s = Returned) \<and>
    (mt_fromHandle m \<noteq> '''' \<longrightarrow> (\<forall>x \<in> set (delivered tr). msg_From x \<noteq> mt_fromHandle m))"
  using poll_run_inv [OF assms] by (simp add: chan_inv_def chan_cap_def)

text \<open>A concrete run: one poll that returns a message, an echo and the message again.\<close>

definition sample_env :: max_env where
  "sample_env =
     \<lparr>me_ParseTime = \<lambda>_. None, me_ParseRFC3339 = \<lambda>_. Some 7,
      me_decode = \<lambda>b. Inr
        [\<lparr>am_MessageID = ''1'', am_From = ''peer'', am_Text = ''x'', am_CreatedAt = ''t''\<rparr>,
         \<lparr>am_MessageID = ''2'', am_From = ''me'', am_Text = ''y'', am_CreatedAt = ''t''\<rparr>,
         \<lparr>am_MessageID = ''1'', am_From = ''peer'', am_Text = ''x'', am_CreatedAt = ''t''\<rparr>]\<rparr>"

definition sample_msgs :: "maxAPIMessage list" where
  "sample_msgs = (case me_decode sample_env \<lparr>bd_data = '''', bd_fails = False\<rparr> of Inr ms \<Rightarrow> ms | _ \<Rightarrow> [])"

definition sample_out :: message where
  "sample_out = \<lparr>msg_ID = ''1'', msg_From = ''peer'', msg_Text = ''x'', msg_CreatedAt = 7\<rparr>"

definition sample_resp :: api_response where
  "sample_resp = \<lparr>rs_Status = 200, rs_Header = [], rs_Body = \<lparr>bd_data = '''', bd_fails = False\<rparr>\<rparr>"

definition sample_start :: poll_state where
  "sample_start = \<lparr>pl_pc = Checking, pl_after = '''', pl_dedupe = \<lparr>dd_ids = [], dd_fifo = [], dd_max = 2\<rparr>,
     pl_chan = [], pl_closed = False, pl_done = False, pl_on429 = 0\<rparr>"

definition sample_end :: poll_state where
  "sample_end = \<lparr>pl_pc = Handling [] False, pl_after = ''2'',
     pl_dedupe = \<lparr>dd_ids = [(''1'', ()), (''2'', ())], dd_fifo = [''1'', ''2''], dd_max = 2\<rparr>,
     pl_chan = [sample_out], pl_closed = False, pl_done = False, pl_on429 = 0\<rparr>"

lemma sample_run:
  "\<exists>req. poll_run sample_env sample_transport sample_start
     [Check, Polled [req] (Inr sample_msgs), Accept ''1'', Deliver sample_out, Accept ''2'', Skip] sample_end"
proof -
  let ?m = sample_transport
  let ?a = "sample_msgs ! 0" and ?b = "sample_msgs ! 1"
  let ?s1 = "sample_start\<lparr>pl_pc := Requesting\<rparr>"
  let ?s2 = "?s1\<lparr>pl_pc := Handling sample_msgs False, pl_closed := False, pl_on429 := 0\<rparr>"
  let ?d1 = "\<lparr>dd_ids = [(''1'', ())], dd_fifo = [''1''], dd_max = 2\<rparr>"
  let ?s3 = "?s2\<lparr>pl_dedupe := ?d1, pl_after := ''1'', pl_pc := Sending sample_out [?b, ?a] False\<rparr>"
  let ?s4 = "?s3\<lparr>pl_pc := Handling [?b, ?a] False, pl_chan := [sample_out]\<rparr>"
  let ?s5 = "?s4\<lparr>pl_dedupe := pl_dedupe sample_end, pl_after := ''2'', pl_pc := Handling [?a] False\<rparr>"
  let ?req = "poll_request ?m ''''"
  have "pollOnce (me_ParseTime sample_env) 0 (me_decode sample_env) (\<lambda>_. Inr sample_resp) ?m '''' =
      (Inr sample_msgs, [?req], 0)"
    and "after_poll ?m (Inr sample_msgs) = (Handling sample_msgs False, 0)"
    by code_simp+
  then have p: "poll_step sample_env ?m ?s1 (Polled [?req] (Inr sample_msgs)) ?s2"
    using poll_step.polled [of ?s1 sample_env 0 "\<lambda>_. Inr sample_resp" ?m "Inr sample_msgs" "[?req]" 0
      "Handling sample_msgs False" 0] by (simp add: sample_start_def)
  have h: "handle_message sample_env ?m 0 ?a [?b, ?a] False ?s2 = Some ?s3"
    "accept_event ?s2 ?a = Accept ''1''" "sample_msgs = [?a, ?b, ?a]"
    "handle_message sample_env ?m 0 ?b [?a] False ?s4 = Some ?s5" "accept_event ?s4 ?b = Accept ''2''"
    "handle_message sample_env ?m 0 ?a [] False ?s5 = Some sample_end" "accept_event ?s5 ?a = Skip"
    by code_simp+
  have 1: "poll_step sample_env ?m sample_start Check ?s1" by (rule check_go) (simp_all add: sample_start_def)
  have 3: "poll_step sample_env ?m ?s2 (Accept ''1'') ?s3"
    using poll_step.handled [of ?s2 ?a "[?b, ?a]" False sample_env ?m 0 ?s3] h by simp
  have 4: "poll_step sample_env ?m ?s3 (Deliver sample_out) ?s4"
    using poll_step.delivered [of ?s3 sample_out "[?b, ?a]" False sample_env ?m]
    by (simp add: chan_cap_def sample_start_def)
  have 5: "poll_step sample_env ?m ?s4 (Accept ''2'') ?s5"
    using poll_step.handled [of ?s4 ?b "[?a]" False sample_env ?m 0 ?s5] h by simp
  have 6: "poll_step sample_env ?m ?s5 Skip sample_end"
    using poll_step.handled [of ?s5 ?a "[]" False sample_env ?m 0 sample_end] h by simp
  note run = run_start [THEN run_step, OF 1, THEN run_step, OF p, THEN run_step, OF 3,
      THEN run_step, OF 4, THEN run_step, OF 5, THEN run_step, OF 6]
  then show ?thesis by auto
qed

lemma sample_transport_ok: "transport_ok sample_transport"
  by (rule NewMaxTransport_ok [OF sample_transport_new])

lemma sample_poll_start: "poll_start sample_transport = Some sample_start"
  by code_simp

lemma no_redelivery_in_window_witness:
  "\<exists>tr s. poll_run sample_env sample_transport sample_start tr s \<and> accs tr = [''1'', ''2''] \<and>
     subseq (ids_of (delivered tr)) (accs tr)"
proof -
  obtain req where run: "poll_run sample_env sample_transport sample_start
     [Check, Polled [req] (Inr sample_msgs), Accept ''1'', Deliver sample_out, Accept ''2'', Skip] sample_end"
    using sample_run by blast
  from no_redelivery_in_window [OF sample_transport_ok sample_poll_start this] this show ?thesis
    by (intro exI [of _ sample_end] exI conjI) (auto simp: accs_def)
qed

lemma channel_fifo_no_echo_witness:
  "\<exists>tr s. poll_run sample_env sample_transport sample_start tr s \<and> pl_chan s = [sample_out] \<and>
     delivered tr = consumed tr @ pl_chan s"
proof -
  obtain req where run: "poll_run sample_env sample_transport sample_start
     [Check, Polled [req] (Inr sample_msgs), Accept ''1'', Deliver sample_out, Accept ''2'', Skip] sample_end"
    using sample_run by blast
  from channel_fifo_no_echo [OF sample_transport_ok sample_poll_start this] this show ?thesis
    by (intro exI [of _ sample_end] exI conjI) (auto simp: sample_end_def)
qed

text \<open>The steps of the goroutine itself, and what a response can lead to.\<close>

definition is_loop :: "poll_event \<Rightarrow> bool" where
  "is_loop ev \<longleftrightarrow> (case ev of Consume x \<Rightarrow> False | Cancel \<Rightarrow> False | _ \<Rightarrow> True)"

lemma accept_event_cases: "accept_event s a = Skip \<or> (\<exists>i. accept_event s a = Accept i)"
  by (simp add: accept_event_def)

lemma accept_event_other [simp]: "Polled reqs r \<noteq> accept_event s a"
  using accept_event_cases [of s a] by auto

inductive_cases polledE: "poll_step env m s (Polled reqs r) s'"

lemma step_at_Returned:
  "poll_step env m s ev s' \<Longrightarrow> pl_pc s = Returned \<Longrightarrow> \<not> is_loop ev \<and> pl_pc s' = Returned"
  by (auto simp: is_loop_def elim: poll_stepE)

lemma run_at_Returned:
  "poll_run env m s tr s' \<Longrightarrow> pl_pc s = Returned \<Longrightarrow> pl_pc s' = Returned \<and> (\<forall>ev \<in> set tr. \<not> is_loop ev)"
  by (induction rule: poll_run.induct) (auto dest: step_at_Returned)

lemma pollOnce_429:
  assumes "pollOnce pt now dec do m after = (Inl (RateLimitError ra), reqs, n)"
  shows "n = (if mt_on429 m then 1 else 0)"
  using assms
  by (auto simp: pollOnce_def checkStatus_def Let_def split: if_splits sum.splits)

text \<open>
  C19: what the goroutine does with the outcome of a poll. It returns, closing the channel, exactly
  on a 401 or 403 answer or when reading failed with a cancelled or expired context, and after that
  it never polls, delivers or sleeps again. Since the error of an expired client timeout is such
  an error, one poll that times out ends reception although nobody cancelled it. On any other
  failure it sleeps for a positive time before the loop continues: the server's delay after a
  429 answer that carries one, the poll interval otherwise.
\<close>

theorem poll_outcome:
  assumes "transport_ok m" "poll_step env m s (Polled reqs r) s'"
  shows "(pl_pc s' = Returned \<longleftrightarrow> (\<exists>c. r = Inl (authError c)) \<or> (\<exists>e. r = Inl e \<and> is_ctx_error e)) \<and>
    (pl_pc s' = Returned \<longrightarrow> pl_closed s' \<and>
       (\<forall>tr s''. poll_run env m s' tr s'' \<longrightarrow> (\<forall>ev \<in> set tr. \<not> is_loop ev))) \<and>
    (\<forall>e. r = Inl e \<and> pl_pc s' \<noteq> Returned \<longrightarrow>
       (\<exists>d. pl_pc s' = Waiting d \<and> 0 < d \<and>
          (case e of RateLimitError ra \<Rightarrow> d = (if 0 < ra then ra else mt_pollInterval m)
                   | _ \<Rightarrow> d = mt_pollInterval m))) \<and>
    (\<forall>ms. r = Inr ms \<longrightarrow> pl_pc s' = Handling ms (ms = []))"
proof -
  obtain pc n k where s': "s' = s\<lparr>pl_pc := pc, pl_closed := (pc = Returned), pl_on429 := k\<rparr>"
    "after_poll m r = (pc, n)"
    using assms(2) by (elim polledE) auto
  have pos: "0 < mt_pollInterval m" using assms(1) by (simp add: transport_ok_def)
  have "pl_pc s' = Returned \<longrightarrow>
      (\<forall>tr s''. poll_run env m s' tr s'' \<longrightarrow> (\<forall>ev \<in> set tr. \<not> is_loop ev))"
    using run_at_Returned by blast
  moreover have "(pc = Returned \<longleftrightarrow> (\<exists>c. r = Inl (authError c)) \<or> (\<exists>e. r = Inl e \<and> is_ctx_error e)) \<and>
    (\<forall>e. r = Inl e \<and> pc \<noteq> Returned \<longrightarrow>
       (\<exists>d. pc = Waiting d \<and> 0 < d \<and>
          (case e of RateLimitError ra \<Rightarrow> d = (if 0 < ra then ra else mt_pollInterval m)
                   | _ \<Rightarrow> d = mt_pollInterval m))) \<and>
    (\<forall>ms. r = Inr ms \<longrightarrow> pc = Handling ms (ms = []))"
    using s'(2) pos
    by (auto simp: after_poll_def is_ctx_error_def split: sum.splits max_error.splits if_splits)
  moreover have "pl_pc s' = pc" "pl_closed s' = (pc = Returned)" using s'(1) by simp_all
  ultimately show ?thesis by (simp only:) blast
qed

lemma poll_outcome_witness:
  "\<exists>reqs s'. poll_step sample_env sample_transport (sample_start\<lparr>pl_pc := Requesting\<rparr>)
     (Polled reqs (Inl (DoFailed ''poll'' NetDeadline))) s' \<and> \<not> pl_done s' \<and> pl_pc s' = Returned \<and> pl_closed s'"
proof -
  let ?s = "sample_start\<lparr>pl_pc := Requesting\<rparr>"
  let ?r = "Inl (DoFailed ''poll'' NetDeadline) :: max_error + maxAPIMessage list"
  let ?s' = "?s\<lparr>pl_pc := Returned, pl_closed := True, pl_on429 := 0\<rparr>"
  let ?req = "poll_request sample_transport ''''"
  have "pollOnce (me_ParseTime sample_env) 0 (me_decode sample_env) (\<lambda>_. Inl NetDeadline) sample_transport
      '''' = (?r, [?req], 0)" "after_poll sample_transport ?r = (Returned, 0)"
    by code_simp+
  then have "poll_step sample_env sample_transport ?s (Polled [?req] ?r) ?s'"
    using poll_step.polled [of ?s sample_env 0 "\<lambda>_. Inl NetDeadline" sample_transport ?r "[?req]" 0 Returned 0]
    by (simp add: sample_start_def)
  moreover from poll_outcome [OF sample_transport_ok this] have "pl_closed ?s'" by simp
  ultimately show ?thesis by (intro exI [of _ "[?req]"] exI [of _ ?s']) (simp add: sample_start_def)
qed

text \<open>
  a 429 answer to a poll calls the registered callback twice, once in \<open>checkStatus\<close> and once in
  the loop, while no other outcome of a poll calls it.
\<close>

theorem polled_429_counted_twice:
  assumes "poll_step env m s (Polled reqs r) s'"
  shows "pl_on429 s' = pl_on429 s + (if mt_on429 m \<and> (\<exists>ra. r = Inl (RateLimitError ra)) then 2 else 0)"
proof -
  obtain pc n n' do now where s': "pl_on429 s' = pl_on429 s + n + n'"
    "pollOnce (me_ParseTime env) now (me_decode env) do m (pl_after s) = (r, reqs, n)"
    "after_poll m r = (pc, n')"
    using assms by (elim polledE) auto
  have "n' = (if mt_on429 m \<and> (\<exists>ra. r = Inl (RateLimitError ra)) then 1 else 0)"
    using s'(3) by (auto simp: after_poll_def is_ctx_error_def split: sum.splits max_error.splits if_splits)
  moreover have "n = (if mt_on429 m \<and> (\<exists>ra. r = Inl (RateLimitError ra)) then 1 else 0)"
    using s'(2) by (auto simp: pollOnce_def checkStatus_def Let_def split: if_splits sum.splits)
  ultimately show ?thesis using s'(1) by simp
qed

lemma polled_429_counted_twice_witness:
  "\<exists>reqs s'. poll_step sample_env (WithOn429 sample_transport) (sample_start\<lparr>pl_pc := Requesting\<rparr>)
     (Polled reqs (Inl (RateLimitError 0))) s' \<and> pl_on429 s' = 2"
proof -
  let ?s = "sample_start\<lparr>pl_pc := Requesting\<rparr>" and ?m = "WithOn429 sample_transport"
  let ?r = "Inl (RateLimitError 0) :: max_error + maxAPIMessage list"
  let ?resp = "\<lparr>rs_Status = 429, rs_Header = [], rs_Body = \<lparr>bd_data = '''', bd_fails = False\<rparr>\<rparr>"
  let ?req = "poll_request ?m ''''" and ?pc = "Waiting second_ns"
  let ?s' = "?s\<lparr>pl_pc := ?pc, pl_closed := False, pl_on429 := 2\<rparr>"
  have "pollOnce (me_ParseTime sample_env) 0 (me_decode sample_env) (\<lambda>_. Inr ?resp) ?m '''' = (?r, [?req], 1)"
    "after_poll ?m ?r = (?pc, 1)"
    by code_simp+
  then have "poll_step sample_env ?m ?s (Polled [?req] ?r) ?s'"
    using poll_step.polled [of ?s sample_env 0 "\<lambda>_. Inr ?resp" ?m ?r "[?req]" 1 ?pc 1]
    by (simp add: sample_start_def numeral_2_eq_2)
  moreover from polled_429_counted_twice [OF this] have "pl_on429 ?s' = 2"
    by (simp add: sample_start_def WithOn429_def)
  ultimately show ?thesis by blast
qed

text \<open>
  How far the goroutine is from returning once \<^verbatim>\<open>pollCtx\<close> is done: a request in flight may still
  bring messages, a message takes at most two steps, then at most one timer branch is taken.
\<close>

fun pc_rank :: "poll_pc \<Rightarrow> nat \<times> nat" where
  "pc_rank Returned = (0, 0)"
| "pc_rank Checking = (1, 0)"
| "pc_rank (Waiting d) = (2, 0)"
| "pc_rank (Handling ms e) = (3, 2 * length ms)"
| "pc_rank (Sending x ms e) = (3, 2 * length ms + 1)"
| "pc_rank Requesting = (4, 0)"

definition rank_less :: "(poll_state \<times> poll_state) set" where
  "rank_less = inv_image (less_than <*lex*> less_than) (pc_rank \<circ> pl_pc)"

lemma wf_rank_less: "wf rank_less"
  by (simp add: rank_less_def wf_lex_prod)

lemma handle_message_rank:
  assumes "handle_message env m now a rest e s = Some s'"
  shows "pl_done s' = pl_done s"
    "\<exists>k. pc_rank (pl_pc s') = (3, k) \<and> k < 2 * length (a # rest)"
  using assms by (cases rule: handle_message_cases; simp)+

lemma after_poll_rank: "after_poll m r = (pc, n) \<Longrightarrow> fst (pc_rank pc) < 4"
  by (auto simp: after_poll_def split: sum.splits if_splits max_error.splits)

lemma done_step_rank:
  assumes "poll_step env m s ev s'" "is_loop ev" "pl_done s"
  shows "(s', s) \<in> rank_less \<and> pl_done s'"
  using assms
proof (induction rule: poll_step.induct)
  case (handled s a rest e now s')
  then show ?case using handle_message_rank [OF handled(2)] by (auto simp: rank_less_def)
next
  case (polled s do now r reqs n pc n')
  then show ?case using after_poll_rank [of m r pc n']
    by (cases "pc_rank pc") (auto simp: rank_less_def)
qed (auto simp: rank_less_def return_state_def is_loop_def)

lemma handle_message_total:
  assumes "dedupe_ok (pl_dedupe s)"
  shows "\<exists>s'. handle_message env m now a rest e s = Some s'"
proof (cases "is_known s a \<or> am_MessageID a = ''''")
  case True
  then show ?thesis by (auto simp: handle_message_def is_known_def record_id_def)
next
  case False
  then obtain d where "dedupe_add (pl_dedupe s) (am_MessageID a) = Some d"
    using dedupe_add_ok [OF assms] unfolding is_known_def by metis
  then show ?thesis by (simp add: handle_message_def record_id_def)
qed

lemma accept_is_loop [simp]: "is_loop (accept_event s a)"
  using accept_event_cases [of s a] by (auto simp: is_loop_def)

lemma done_progress:
  assumes "dedupe_ok (pl_dedupe s)" "pl_done s" "pl_pc s \<noteq> Returned"
  shows "\<exists>ev s'. poll_step env m s ev s' \<and> is_loop ev"
proof (cases "pl_pc s")
  case Checking
  then show ?thesis using check_done [of s env m] assms by (force simp: is_loop_def)
next
  case Requesting
  obtain r reqs n where "pollOnce (me_ParseTime env) 0 (me_decode env) (\<lambda>_. Inl NetCanceled) m (pl_after s) = (r, reqs, n)"
    by (metis prod_cases3)
  moreover obtain pc n' where "after_poll m r = (pc, n')" by fastforce
  ultimately show ?thesis using polled [OF Requesting] by (force simp: is_loop_def)
next
  case (Waiting d)
  then show ?thesis using wait_done [of s d env m] assms by (force simp: is_loop_def)
next
  case (Handling ms e)
  show ?thesis
  proof (cases ms)
    case Nil
    then show ?thesis using handled_all [of s e env m] Handling by (force simp: is_loop_def)
  next
    case (Cons a rest)
    then obtain s' where "handle_message env m 0 a rest e s = Some s'"
      using handle_message_total [OF assms(1)] by blast
    with Cons Handling have "poll_step env m s (accept_event s a) s'" by (simp add: poll_step.handled)
    then show ?thesis by force
  qed
next
  case (Sending x rest e)
  then show ?thesis using send_done [of s x rest e env m] assms by (force simp: is_loop_def)
qed (use assms in simp)

lemma run_no_check:
  assumes "poll_run env m s tr s'" "pl_done s"
  shows "pl_done s' \<and> Check \<notin> set tr"
  using assms
proof (induction rule: poll_run.induct)
  case (run_step tr s' ev s'')
  have "ev \<noteq> Check" using run_step by (auto elim: poll_stepE simp: accept_event_def split: if_splits)
  moreover have "pl_done s''"
    using run_step(2) run_step.IH run_step.prems
    by (auto elim!: poll_stepE simp: return_state_def dest: handle_message_rank(1))
  ultimately show ?case using run_step by auto
qed simp

text \<open>
  C14: cancellation stops the goroutine. Once the context is done (\<open>Close\<close> was called or the caller
  cancelled), no further poll is started; as long as the goroutine has not returned it can take a
  step without its consumer's help; and no infinite sequence of its steps exists, since each one
  decreases a well-founded measure. So it returns, and the channel is closed then.
\<close>

theorem cancelled_goroutine_returns:
  assumes "transport_ok m" "poll_start m = Some s0" "poll_run env m s0 tr s" "pl_done s"
  shows "(\<forall>tr' s'. poll_run env m s tr' s' \<longrightarrow> Check \<notin> set tr') \<and>
    (pl_closed s \<or> (\<exists>ev s'. poll_step env m s ev s' \<and> is_loop ev)) \<and>
    wf {(s2, s1). pl_done s1 \<and> (\<exists>ev. is_loop ev \<and> poll_step env m s1 ev s2)}"
proof -
  have "{(s2, s1). pl_done s1 \<and> (\<exists>ev. is_loop ev \<and> poll_step env m s1 ev s2)} \<subseteq> rank_less"
    using done_step_rank by blast
  then have "wf {(s2, s1). pl_done s1 \<and> (\<exists>ev. is_loop ev \<and> poll_step env m s1 ev s2)}"
    using wf_rank_less wf_subset by blast
  moreover have "dedupe_ok (pl_dedupe s)" "pl_closed s \<longleftrightarrow> pl_pc s = Returned"
    using poll_run_inv [OF assms(1-3)] by (simp_all add: window_inv_def dw.holds_def chan_inv_def)
  ultimately show ?thesis
    using done_progress [of s env m] assms(4) run_no_check [OF _ assms(4)] by blast
qed

lemma cancelled_goroutine_returns_witness:
  "\<exists>s. poll_run sample_env sample_transport sample_start [Cancel] s \<and> \<not> pl_closed s \<and>
     (\<exists>ev s'. poll_step sample_env sample_transport s ev s' \<and> is_loop ev)"
proof -
  let ?s = "sample_start\<lparr>pl_done := True\<rparr>"
  have r: "poll_run sample_env sample_transport sample_start [Cancel] ?s"
    using run_step [OF run_start poll_step.cancelled] by simp
  from cancelled_goroutine_returns [OF sample_transport_ok sample_poll_start r] r show ?thesis
    by (intro exI [of _ ?s]) (simp add: sample_start_def)
qed

text \<open>
  \<open>Retry-After\<close>. A decimal number of seconds, with blanks around it, gives exactly that
  delay (for up to 292 years); an HTTP date gives the time until then when it lies ahead; an empty or
  unreadable value, or a date in the past, gives zero.
\<close>

theorem retry_after_values:
  "(1 \<le> n \<and> int n \<le> 9223372036 \<longrightarrow>
      parseRetryAfter pt now (spaces i @ nat_digits n @ spaces j) = int n * second_ns) \<and>
   parseRetryAfter pt now '''' = 0 \<and>
   (Atoi (TrimSpace h) = None \<and> h \<noteq> '''' \<longrightarrow>
      parseRetryAfter pt now h =
        (case pt h of None \<Rightarrow> 0 | Some t \<Rightarrow> if now < t then min max_int64 (t - now) else 0))"
proof -
  have "parseRetryAfter pt now (spaces i @ nat_digits n @ spaces j) = int n * second_ns"
    if n: "1 \<le> n" "int n \<le> 9223372036"
  proof -
    obtain u l where ul: "nat_digits n = u @ [l]" by (metis append_butlast_last_id nat_digits_not_Nil)
    have "visible c" if "c \<in> set (nat_digits n)" for c
      using nat_digits_set [OF that] by (auto simp: is_digit_def visible_def)
    then have "TrimSpace (spaces i @ nat_digits n @ spaces j) = nat_digits n"
      by (intro TrimSpace_visible(1) [of "hd (nat_digits n)" l _ u]) (use ul in \<open>auto simp: hd_append\<close>)
    moreover have "Atoi (nat_digits n) = Some (int n)"
      by (rule Atoi_nat_digits) (use n in \<open>simp add: int64_range_def min_int64_def max_int64_def\<close>)
    ultimately show ?thesis
      using n by (simp add: parseRetryAfter_def seconds_exact Let_def)
  qed
  then show ?thesis
    by (auto simp: parseRetryAfter_def Let_def time_Sub_def min_int64_def max_int64_def split: option.splits)
qed

lemma retry_after_values_witness:
  "parseRetryAfter (\<lambda>_. None) 0 '' 60'' = 60 * second_ns"
proof -
  have "nat_digits 60 = ''60''" by (simp add: nat_digits.simps) code_simp
  moreover have "spaces 1 = '' ''" "spaces 0 = ''''" by code_simp+
  ultimately show ?thesis
    using retry_after_values [of 60 "\<lambda>_. None" 0 1 0] by simp
qed

end
