(* ===== verification/Observability.thy ===== *)
theory Observability
  imports Go_Prelude
begin

text \<open>
  \<^verbatim>\<open>internal/observability\<close>: the operational counters, each an atomic \<open>int64\<close> that wraps, and the
  logger with its level threshold. A logger's output is the list of records it has written.
\<close>

section \<open>Counters\<close>

record Metrics =
  me_MessagesSent :: int
  me_MessagesReceived :: int
  me_MessageDrops :: int
  me_BytesSent :: int
  me_BytesReceived :: int
  me_FramesEncoded :: int
  me_FramesDecoded :: int
  me_ChunksSent :: int
  me_ChunksReceived :: int
  me_ReassemblyOK :: int
  me_ReassemblyFail :: int
  me_ProxyRequests :: int
  me_ProxyResponses :: int
  me_ProxyErrors :: int
  me_ExitRequests :: int
  me_ExitResponses :: int
  me_ExitErrors :: int
  me_RateLimitHits :: int
  me_Backoffs :: int
  me_RateLimitOn429 :: int

definition NewMetrics :: Metrics where
  "NewMetrics =
     \<lparr>me_MessagesSent = 0, me_MessagesReceived = 0, me_MessageDrops = 0, me_BytesSent = 0,
      me_BytesReceived = 0, me_FramesEncoded = 0, me_FramesDecoded = 0, me_ChunksSent = 0,
      me_ChunksReceived = 0, me_ReassemblyOK = 0, me_ReassemblyFail = 0, me_ProxyRequests = 0,
      me_ProxyResponses = 0, me_ProxyErrors = 0, me_ExitRequests = 0, me_ExitResponses = 0,
      me_ExitErrors = 0, me_RateLimitHits = 0, me_Backoffs = 0, me_RateLimitOn429 = 0\<rparr>"

text \<open>\<^verbatim>\<open>Add(1)\<close> on an \<^verbatim>\<open>atomic.Int64\<close>.\<close>

definition incr :: "int \<Rightarrow> int" where
  "incr n = wrap64 (n + 1)"

lemma incr_exact: "min_int64 \<le> n \<Longrightarrow> n < max_int64 \<Longrightarrow> incr n = n + 1"
  by (simp add: incr_def int64 int64_range_def min_int64_def max_int64_def)

section \<open>Levels\<close>

datatype log_level = LevelDebug | LevelInfo | LevelWarn | LevelError

text \<open>The numbers \<^verbatim>\<open>log/slog\<close> gives its levels order them.\<close>

fun level_number :: "log_level \<Rightarrow> int" where
  "level_number LevelDebug = -4"
| "level_number LevelInfo = 0"
| "level_number LevelWarn = 4"
| "level_number LevelError = 8"

lemma level_number_inj: "level_number a = level_number b \<longleftrightarrow> a = b"
  by (cases a; cases b) auto

instantiation log_level :: linorder
begin

definition less_eq_log_level :: "log_level \<Rightarrow> log_level \<Rightarrow> bool" where
  "less_eq_log_level a b \<longleftrightarrow> level_number a \<le> level_number b"

definition less_log_level :: "log_level \<Rightarrow> log_level \<Rightarrow> bool" where
  "less_log_level a b \<longleftrightarrow> level_number a < level_number b"

instance
  by standard (auto simp: less_eq_log_level_def less_log_level_def level_number_inj)

end

section \<open>The logger\<close>

record Logger =
  lo_level :: log_level
  lo_json :: bool
  lo_attrs :: "string list"
  lo_out :: "(log_level \<times> string \<times> string list) list"

definition parse_level :: "string \<Rightarrow> log_level" where
  "parse_level level =
     (if level = ''debug'' then LevelDebug
      else if level = ''warn'' then LevelWarn
      else if level = ''error'' then LevelError
      else LevelInfo)"

definition NewLogger :: "string \<Rightarrow> string \<Rightarrow> Logger" where
  "NewLogger level format =
     \<lparr>lo_level = parse_level level, lo_json = (format = ''json''), lo_attrs = [], lo_out = []\<rparr>"

text \<open>The handler of \<^verbatim>\<open>log/slog\<close> writes a record when its level reaches the threshold.\<close>

definition log_at :: "log_level \<Rightarrow> string \<Rightarrow> string list \<Rightarrow> Logger \<Rightarrow> Logger" where
  "log_at lvl msg args l =
     (if lo_level l \<le> lvl then l\<lparr>lo_out := lo_out l @ [(lvl, msg, lo_attrs l @ args)]\<rparr> else l)"

definition log_Info :: "string \<Rightarrow> string list \<Rightarrow> Logger \<Rightarrow> Logger" where "log_Info = log_at LevelInfo"
definition log_Debug :: "string \<Rightarrow> string list \<Rightarrow> Logger \<Rightarrow> Logger" where "log_Debug = log_at LevelDebug"
definition log_Warn :: "string \<Rightarrow> string list \<Rightarrow> Logger \<Rightarrow> Logger" where "log_Warn = log_at LevelWarn"
definition log_Error :: "string \<Rightarrow> string list \<Rightarrow> Logger \<Rightarrow> Logger" where "log_Error = log_at LevelError"

definition log_With :: "string list \<Rightarrow> Logger \<Rightarrow> Logger" where
  "log_With args l = l\<lparr>lo_attrs := lo_attrs l @ args\<rparr>"

lemmas log_ops = log_Info_def log_Debug_def log_Warn_def log_Error_def log_With_def log_at_def

section \<open>Properties\<close>

text \<open>One call of a logging method.\<close>

datatype log_call = CallLog log_level string "string list" | CallWith "string list"

fun log_step :: "Logger \<Rightarrow> log_call \<Rightarrow> Logger" where
  "log_step l (CallLog LevelDebug msg args) = log_Debug msg args l"
| "log_step l (CallLog LevelInfo msg args) = log_Info msg args l"
| "log_step l (CallLog LevelWarn msg args) = log_Warn msg args l"
| "log_step l (CallLog LevelError msg args) = log_Error msg args l"
| "log_step l (CallWith args) = log_With args l"

lemma log_step_level: "lo_level (log_step l c) = lo_level l"
  by (cases "(l, c)" rule: log_step.cases) (auto simp: log_ops)

fun logged :: "log_level \<Rightarrow> log_call \<Rightarrow> (log_level \<times> string) list" where
  "logged t (CallLog lvl msg args) = (if t \<le> lvl then [(lvl, msg)] else [])"
| "logged t (CallWith args) = []"

lemma log_step_out:
  "map (\<lambda>(l, m, a). (l, m)) (lo_out (log_step l c)) =
     map (\<lambda>(l, m, a). (l, m)) (lo_out l) @ logged (lo_level l) c"
  by (cases "(l, c)" rule: log_step.cases) (auto simp: log_ops)

text \<open>
  what a logger writes. For any sequence of calls on a new logger, the records written are
  exactly those whose level reaches the configured one, in call order; an unknown level name counts
  as \<open>info\<close>, so errors and warnings are written unless \<open>error\<close> is configured.
\<close>

theorem logger_threshold:
  "map (\<lambda>(l, m, a). (l, m)) (lo_out (fold (\<lambda>c l. log_step l c) calls (NewLogger level format))) =
     concat (map (logged (parse_level level)) calls) \<and>
   (level \<notin> {''debug'', ''warn'', ''error''} \<longrightarrow> parse_level level = LevelInfo)"
proof -
  have "map (\<lambda>(l, m, a). (l, m)) (lo_out (fold (\<lambda>c l. log_step l c) calls l)) =
      map (\<lambda>(l, m, a). (l, m)) (lo_out l) @ concat (map (logged (lo_level l)) calls)" for l
    by (induction calls arbitrary: l) (simp_all add: log_step_out log_step_level)
  then show ?thesis by (simp add: NewLogger_def parse_level_def)
qed

lemma logger_threshold_witness:
  "parse_level ''verbose'' = LevelInfo \<and>
   map (\<lambda>(l, m, a). (l, m)) (lo_out (fold (\<lambda>c l. log_step l c)
     [CallLog LevelDebug ''d'' [], CallLog LevelError ''e'' []] (NewLogger ''verbose'' ''text'')))
     = [(LevelError, ''e'')]"
  using logger_threshold [of "[CallLog LevelDebug ''d'' [], CallLog LevelError ''e'' []]" "''verbose''" "''text''"]
  by (simp add: less_eq_log_level_def)

end
