(* ===== verification/Relay_Wire.thy ===== *)
theory Relay_Wire
  imports "HOL-Library.Word" Go_Prelude
begin

text \<open>
  The data of relaykit's package \<^verbatim>\<open>protocol\<close> that both ends of the tunnel build and read: frames and
  error codes. The module itself is not part of the repository; only the fields and constants the
  program names appear here.
\<close>

text \<open>\<^verbatim>\<open>protocol.Frame\<close>; \<open>fr_Part\<close> stands for the fields only relaykit sets.\<close>

datatype frame_type = FrameDATA | FrameERROR | FrameOther nat

record frame =
  fr_Version :: int
  fr_Type :: frame_type
  fr_SessionID :: string
  fr_RequestID :: string
  fr_SeqNum :: "32 word"
  fr_Payload :: string
  fr_Part :: nat

text \<open>The error codes of \<^verbatim>\<open>protocol\<close>.\<close>

datatype err_code =
    ErrCodeBadRequest | ErrCodePolicyDenied | ErrCodeUpstreamTimeout | ErrCodeUpstreamUnavailable
  | ErrCodeResponseTooLarge | ErrCodeInternalError

end
