(* ===== verification/Exit_Executor.thy ===== *)
theory Exit_Executor
  imports Http_Policy Observability Relay_Wire
begin

text \<open>
  \<^verbatim>\<open>internal/exit/http_executor.go\<close>: the exit node. A request frame is decoded, checked against the
  policy, turned into an outbound request without hop-by-hop headers, and its response, or an error,
  is sent back in numbered chunks.

  Parameters: the JSON codec and the module relaykit (frames are chunked, encoded, decoded and
  reassembled there) in \<open>exit_env\<close>; the outcomes of the n-th \<^verbatim>\<open>client.Do\<close>, of the n-th wait for a
  rate token and of the n-th \<^verbatim>\<open>Send\<close> in \<open>exit_world\<close>. Requests are handled one after the other here;
  the goroutines of the program, which share the atomic counters and the transport only, are in
  \<open>Exit_Concurrent\<close>, together with the proof that this sequence is one of their interleavings.
  Error texts are left out of the log records.
\<close>

section \<open>Wire data\<close>

record relayRequest =
  rr_Method :: string
  rr_URL :: string
  rr_Headers :: header
  rr_Body :: string

record relayResponse =
  rp_StatusCode :: int
  rp_Headers :: header
  rp_Body :: string

section \<open>The executor\<close>

text \<open>An outbound request, and what \<^verbatim>\<open>client.Do\<close> makes of it.\<close>

record out_request =
  oq_Method :: string
  oq_URL :: string
  oq_Header :: header
  oq_Body :: string

record upstream_response =
  up_Status :: int
  up_Header :: header
  up_Body :: body

datatype do_outcome = DoTimeout | DoError | DoResponse upstream_response

record exit_env =
  xe_policy :: policy_env
  xe_unmarshal :: "string \<Rightarrow> relayRequest option"
  xe_marshal :: "relayResponse \<Rightarrow> string option"
  xe_error_payload :: "err_code \<Rightarrow> int \<Rightarrow> string \<Rightarrow> string"
  xe_chunk :: "frame \<Rightarrow> frame list"
  xe_encode :: "frame \<Rightarrow> string option"
  xe_decode :: "string \<Rightarrow> frame option"

record exit_world =
  xw_Do :: "nat \<Rightarrow> out_request \<Rightarrow> do_outcome"
  xw_Wait :: "nat \<Rightarrow> bool"
  xw_Send :: "nat \<Rightarrow> string \<Rightarrow> bool"

text \<open>
  The executor. \<open>xs_calls\<close>, \<open>xs_waits\<close> and \<open>xs_sends\<close> record the requests given to \<^verbatim>\<open>client.Do\<close>, the
  number of waits and the texts given to \<^verbatim>\<open>Send\<close> so far.
\<close>

record HTTPExecutor =
  xs_cfg :: Config
  xs_clientTimeout :: int
  xs_tlsHandshakeTimeout :: int
  xs_reassembleWithin :: int
  xs_sessionID :: string
  xs_dialBlocksPrivate :: bool
  xs_limiter :: bool
  xs_seqNum :: "32 word"
  xs_metrics :: Metrics
  xs_log :: Logger
  xs_calls :: "out_request list"
  xs_waits :: nat
  xs_sends :: "string list"

definition NewHTTPExecutor :: "int \<Rightarrow> Config \<Rightarrow> HTTPExecutor" where
  "NewHTTPExecutor nano cfg =
     \<lparr>xs_cfg = cfg,
      xs_clientTimeout = seconds (ex_RequestTimeoutSec (Exit cfg)),
      xs_tlsHandshakeTimeout = 10 * second_ns,
      xs_reassembleWithin = 60 * second_ns,
      xs_sessionID = ''exit-'' @ Itoa nano,
      xs_dialBlocksPrivate = pl_BlockPrivateRanges (Policy cfg),
      xs_limiter = False,
      xs_seqNum = 0,
      xs_metrics = NewMetrics,
      xs_log = NewLogger (lg_Level (Log cfg)) (lg_Format (Log cfg)),
      xs_calls = [],
      xs_waits = 0,
      xs_sends = []\<rparr>"

definition exit_WithRateLimiter :: "HTTPExecutor \<Rightarrow> HTTPExecutor" where
  "exit_WithRateLimiter e = e\<lparr>xs_limiter := True\<rparr>"

definition exit_log :: "(Logger \<Rightarrow> Logger) \<Rightarrow> HTTPExecutor \<Rightarrow> HTTPExecutor" where
  "exit_log f e = e\<lparr>xs_log := f (xs_log e)\<rparr>"

definition count_ExitRequests :: "HTTPExecutor \<Rightarrow> HTTPExecutor" where
  "count_ExitRequests e =
     e\<lparr>xs_metrics := (xs_metrics e)\<lparr>me_ExitRequests := incr (me_ExitRequests (xs_metrics e))\<rparr>\<rparr>"

definition count_ExitResponses :: "HTTPExecutor \<Rightarrow> HTTPExecutor" where
  "count_ExitResponses e =
     e\<lparr>xs_metrics := (xs_metrics e)\<lparr>me_ExitResponses := incr (me_ExitResponses (xs_metrics e))\<rparr>\<rparr>"

definition count_ExitErrors :: "HTTPExecutor \<Rightarrow> HTTPExecutor" where
  "count_ExitErrors e =
     e\<lparr>xs_metrics := (xs_metrics e)\<lparr>me_ExitErrors := incr (me_ExitErrors (xs_metrics e))\<rparr>\<rparr>"

section \<open>Sending\<close>

datatype send_error = EncodeFailed | RateLimitFailed | SendFailed

text \<open>\<^verbatim>\<open>e.seqNum.Add(1)\<close>, a wait for a token when there is a limiter, and a text given to \<^verbatim>\<open>Send\<close>.\<close>

definition take_seq :: "HTTPExecutor \<Rightarrow> HTTPExecutor" where
  "take_seq e = e\<lparr>xs_seqNum := xs_seqNum e + 1\<rparr>"

definition wait_token :: "exit_world \<Rightarrow> HTTPExecutor \<Rightarrow> bool \<times> HTTPExecutor" where
  "wait_token w e =
     (if xs_limiter e then (xw_Wait w (xs_waits e), e\<lparr>xs_waits := Suc (xs_waits e)\<rparr>) else (True, e))"

definition give_text :: "exit_world \<Rightarrow> string \<Rightarrow> HTTPExecutor \<Rightarrow> bool \<times> HTTPExecutor" where
  "give_text w t e = (xw_Send w (length (xs_sends e)) t, e\<lparr>xs_sends := xs_sends e @ [t]\<rparr>)"

text \<open>The loop of \<^verbatim>\<open>sendFrame\<close> over the chunks.\<close>

fun send_chunks ::
  "exit_env \<Rightarrow> exit_world \<Rightarrow> frame list \<Rightarrow> HTTPExecutor \<Rightarrow> send_error err \<times> HTTPExecutor"
where
  "send_chunks env w [] e = (None, e)"
| "send_chunks env w (chunk # chunks) e =
     (let e1 = take_seq e; c = chunk\<lparr>fr_SeqNum := xs_seqNum e1\<rparr> in
      case xe_encode env c of
        None \<Rightarrow> (Some EncodeFailed, e1)
      | Some t \<Rightarrow>
          (case wait_token w e1 of
             (False, e2) \<Rightarrow> (Some RateLimitFailed, e2)
           | (True, e2) \<Rightarrow>
               (case give_text w t e2 of
                  (False, e3) \<Rightarrow> (Some SendFailed, e3)
                | (True, e3) \<Rightarrow> send_chunks env w chunks e3)))"

definition sendFrame ::
  "exit_env \<Rightarrow> exit_world \<Rightarrow> frame \<Rightarrow> HTTPExecutor \<Rightarrow> send_error err \<times> HTTPExecutor"
where
  "sendFrame env w fr e = send_chunks env w (xe_chunk env fr) e"

definition error_frame :: "exit_env \<Rightarrow> frame \<Rightarrow> err_code \<Rightarrow> int \<Rightarrow> string \<Rightarrow> frame" where
  "error_frame env req code httpStatus msg =
     \<lparr>fr_Version = 1, fr_Type = FrameERROR, fr_SessionID = fr_SessionID req,
      fr_RequestID = fr_RequestID req, fr_SeqNum = 0,
      fr_Payload = xe_error_payload env code httpStatus msg, fr_Part = 0\<rparr>"

definition sendError ::
  "exit_env \<Rightarrow> exit_world \<Rightarrow> frame \<Rightarrow> err_code \<Rightarrow> int \<Rightarrow> string \<Rightarrow> HTTPExecutor \<Rightarrow> HTTPExecutor"
where
  "sendError env w req code httpStatus msg e =
     count_ExitErrors (snd (sendFrame env w (error_frame env req code httpStatus msg) e))"

section \<open>Handling a request\<close>

definition hopByHopHeaders :: "string list" where
  "hopByHopHeaders =
     [''Connection'', ''Keep-Alive'', ''Proxy-Authenticate'', ''Proxy-Authorization'',
      ''Proxy-Connection'', ''TE'', ''Trailer'', ''Trailers'', ''Transfer-Encoding'', ''Upgrade'']"

text \<open>Both loops that strip: the names the \<open>Connection\<close> value lists, then the fixed ones.\<close>

definition strip_hop_by_hop :: "header \<Rightarrow> header" where
  "strip_hop_by_hop h =
     (let conn = Header_Get h ''Connection'';
          h1 = (if conn \<noteq> '''' then fold (\<lambda>x. Header_Del (TrimSpace x)) (Split conn (CHR '','')) h else h)
      in fold Header_Del hopByHopHeaders h1)"

definition outbound :: "relayRequest \<Rightarrow> out_request" where
  "outbound req =
     \<lparr>oq_Method = request_method (rr_Method req), oq_URL = rr_URL req,
      oq_Header = strip_hop_by_hop (add_all (rr_Headers req) []), oq_Body = rr_Body req\<rparr>"

definition max_response_bytes :: "PolicyConfig \<Rightarrow> int" where
  "max_response_bytes pol =
     (if pl_MaxResponseBytes pol \<le> 0 then 10 * 1024 * 1024 else pl_MaxResponseBytes pol)"

text \<open>
  The part of \<open>handleRequest\<close> after the response has arrived: the content type, the bounded read,
  the reply.
\<close>

definition content_type_denied :: "exit_env \<Rightarrow> PolicyConfig \<Rightarrow> header \<Rightarrow> bool" where
  "content_type_denied env pol h =
     (let ct = Header_Get h ''Content-Type'' in
      ct \<noteq> '''' \<and> CheckContentType (pe_lower (xe_policy env)) ct pol \<noteq> None)"

definition handleResponse ::
  "exit_env \<Rightarrow> exit_world \<Rightarrow> frame \<Rightarrow> upstream_response \<Rightarrow> HTTPExecutor \<Rightarrow> HTTPExecutor"
where
  "handleResponse env w fr resp e =
     (if content_type_denied env (Policy (xs_cfg e)) (up_Header resp) then
        sendError env w fr ErrCodePolicyDenied 403 ''response content-type denied by policy''
          (exit_log (log_Warn ''exit: content-type policy denied''
             [''content_type'', Header_Get (up_Header resp) ''Content-Type'']) e)
      else
        let maxBytes = max_response_bytes (Policy (xs_cfg e)) in
        case ReadAll_limit (wrap64 (maxBytes + 1)) (up_Body resp) of
          None \<Rightarrow> sendError env w fr ErrCodeInternalError 502 ''failed to read upstream response'' e
        | Some bdy \<Rightarrow>
            if int (length bdy) > maxBytes then
              sendError env w fr ErrCodeResponseTooLarge 502 ''response too large'' e
            else
              let rel = \<lparr>rp_StatusCode = up_Status resp, rp_Headers = up_Header resp, rp_Body = bdy\<rparr>
              in case xe_marshal env rel of
                   None \<Rightarrow> sendError env w fr ErrCodeInternalError 500 ''internal error'' e
                 | Some payload \<Rightarrow>
                     let respFrame =
                       \<lparr>fr_Version = 1, fr_Type = FrameDATA, fr_SessionID = fr_SessionID fr,
                        fr_RequestID = fr_RequestID fr, fr_SeqNum = 0, fr_Payload = payload, fr_Part = 0\<rparr>
                     in case sendFrame env w respFrame e of
                          (Some err, e) \<Rightarrow> exit_log (log_Error ''exit: send response'' []) e
                        | (None, e) \<Rightarrow> count_ExitResponses e)"

definition handleRequest ::
  "exit_env \<Rightarrow> exit_world \<Rightarrow> frame \<Rightarrow> HTTPExecutor \<Rightarrow> HTTPExecutor"
where
  "handleRequest env w fr e0 =
     (let e = count_ExitRequests e0 in
      case xe_unmarshal env (fr_Payload fr) of
        None \<Rightarrow>
          sendError env w fr ErrCodeBadRequest 400 ''invalid request payload''
            (exit_log (log_Error ''exit: unmarshal request'' []) e)
      | Some req \<Rightarrow>
          if CheckRequest (xe_policy env) (Policy (xs_cfg e)) (rr_URL req) \<noteq> None then
            sendError env w fr ErrCodePolicyDenied 403 ''request denied by policy''
              (exit_log (log_Warn ''exit: policy denied'' [''url'', rr_URL req]) e)
          else if \<not> NewRequest_ok (rr_Method req) (rr_URL req) then
            sendError env w fr ErrCodeBadRequest 400 ''could not build upstream request'' e
          else
            let httpReq = outbound req;
                outcome = xw_Do w (length (xs_calls e)) httpReq;
                e = e\<lparr>xs_calls := xs_calls e @ [httpReq]\<rparr>
            in case outcome of
                 DoTimeout \<Rightarrow>
                   sendError env w fr ErrCodeUpstreamTimeout 504 ''upstream timeout''
                     (exit_log (log_Error ''exit: outbound request'' []) e)
               | DoError \<Rightarrow>
                   sendError env w fr ErrCodeUpstreamUnavailable 502 ''upstream unavailable''
                     (exit_log (log_Error ''exit: outbound request'' []) e)
               | DoResponse resp \<Rightarrow> handleResponse env w fr resp e)"

section \<open>The receive loop\<close>

text \<open>
  What the \<^verbatim>\<open>select\<close> of \<^verbatim>\<open>Run\<close> sees: a message, the closed channel, or the cancelled context. The
  reassembler is a function from its state and a frame to its state and possibly a whole frame.
  The result tells whether \<^verbatim>\<open>Run\<close> returned, and with which error; \<open>None\<close>: it still runs.
\<close>

datatype run_event = GotMessage string | ChannelClosed | ContextDone

datatype run_result = ReturnedNil | ReturnedCtxErr | ReturnedReceiveErr

fun exit_Run ::
  "exit_env \<Rightarrow> exit_world \<Rightarrow> ('r \<Rightarrow> frame \<Rightarrow> frame option \<times> 'r) \<Rightarrow> run_event list \<Rightarrow>
   'r \<times> HTTPExecutor \<Rightarrow> run_result option \<times> 'r \<times> HTTPExecutor"
where
  "exit_Run env w reasm [] (r, e) = (None, r, e)"
| "exit_Run env w reasm (ChannelClosed # evs) (r, e) = (Some ReturnedNil, r, e)"
| "exit_Run env w reasm (ContextDone # evs) (r, e) = (Some ReturnedCtxErr, r, e)"
| "exit_Run env w reasm (GotMessage text # evs) (r, e) =
     (case xe_decode env text of
        None \<Rightarrow> exit_Run env w reasm evs (r, exit_log (log_Debug ''exit: decode error'' []) e)
      | Some fr \<Rightarrow>
          (case reasm r fr of
             (None, r') \<Rightarrow> exit_Run env w reasm evs (r', e)
           | (Some whole, r') \<Rightarrow> exit_Run env w reasm evs (r', handleRequest env w whole e)))"

definition exit_Run_all ::
  "exit_env \<Rightarrow> exit_world \<Rightarrow> ('r \<Rightarrow> frame \<Rightarrow> frame option \<times> 'r) \<Rightarrow> bool \<Rightarrow> run_event list \<Rightarrow>
   'r \<times> HTTPExecutor \<Rightarrow> run_result option \<times> 'r \<times> HTTPExecutor"
where
  "exit_Run_all env w reasm receiveOk evs re =
     (if \<not> receiveOk then (Some ReturnedReceiveErr, re) else exit_Run env w reasm evs re)"

section \<open>Facts about sending\<close>

text \<open>What sending leaves alone.\<close>

definition same_core :: "HTTPExecutor \<Rightarrow> HTTPExecutor \<Rightarrow> bool" where
  "same_core e e' \<longleftrightarrow>
     xs_cfg e' = xs_cfg e \<and> xs_calls e' = xs_calls e \<and> xs_metrics e' = xs_metrics e \<and>
     xs_limiter e' = xs_limiter e \<and> xs_log e' = xs_log e"

lemma take_seq_simps [simp]:
  "xs_seqNum (take_seq e) = xs_seqNum e + 1" "xs_sends (take_seq e) = xs_sends e"
  "same_core e (take_seq e)"
  by (simp_all add: take_seq_def same_core_def)

lemma wait_token_simps:
  "wait_token w e = (b, e') \<Longrightarrow> xs_seqNum e' = xs_seqNum e \<and> xs_sends e' = xs_sends e \<and> same_core e e'"
  by (auto simp: wait_token_def same_core_def split: if_splits)

lemma give_text_simps:
  "give_text w t e = (b, e') \<Longrightarrow>
     xs_seqNum e' = xs_seqNum e \<and> xs_sends e' = xs_sends e @ [t] \<and> same_core e e'"
  by (auto simp: give_text_def same_core_def)

lemma same_core_trans: "same_core a b \<Longrightarrow> same_core b c \<Longrightarrow> same_core a c"
  by (simp add: same_core_def)

lemma same_core_refl [simp]: "same_core a a"
  by (simp add: same_core_def)

text \<open>The ways one round of the loop can go.\<close>

lemma send_chunks_Cons_cases:
  obtains (encode) e1 where "send_chunks env w (c # cs) e = (Some EncodeFailed, e1)"
      "xs_sends e1 = xs_sends e" "same_core e e1" "xe_encode env (c\<lparr>fr_SeqNum := xs_seqNum e + 1\<rparr>) = None"
  | (wait) e2 where "send_chunks env w (c # cs) e = (Some RateLimitFailed, e2)"
      "xs_sends e2 = xs_sends e" "same_core e e2" "\<exists>n. \<not> xw_Wait w n"
  | (send) t e3 where "send_chunks env w (c # cs) e = (Some SendFailed, e3)"
      "xe_encode env (c\<lparr>fr_SeqNum := xs_seqNum e + 1\<rparr>) = Some t"
      "xs_sends e3 = xs_sends e @ [t]" "same_core e e3" "\<exists>n t. \<not> xw_Send w n t"
  | (go) t e3 where "send_chunks env w (c # cs) e = send_chunks env w cs e3"
      "xe_encode env (c\<lparr>fr_SeqNum := xs_seqNum e + 1\<rparr>) = Some t"
      "xs_sends e3 = xs_sends e @ [t]" "xs_seqNum e3 = xs_seqNum e + 1" "same_core e e3"
proof (cases "xe_encode env (c\<lparr>fr_SeqNum := xs_seqNum e + 1\<rparr>)")
  case None
  then show ?thesis using that(1) [of "take_seq e"] by simp
next
  case (Some t)
  obtain b e2 where w: "wait_token w (take_seq e) = (b, e2)" by fastforce
  obtain b' e3 where g: "give_text w t e2 = (b', e3)" by fastforce
  have 2: "xs_seqNum e2 = xs_seqNum e + 1" "xs_sends e2 = xs_sends e" "same_core e e2"
    using wait_token_simps [OF w] same_core_trans [of e "take_seq e" e2] by simp_all
  have 3: "xs_seqNum e3 = xs_seqNum e + 1" "xs_sends e3 = xs_sends e @ [t]" "same_core e e3"
    using give_text_simps [OF g] 2 same_core_trans [of e e2 e3] by simp_all
  have run: "send_chunks env w (c # cs) e =
      (if \<not> b then (Some RateLimitFailed, e2)
       else if \<not> b' then (Some SendFailed, e3) else send_chunks env w cs e3)"
    using Some w g by (cases b; cases b') simp_all
  consider "\<not> b" | "b" "\<not> b'" | "b" "b'" by blast
  then show ?thesis
  proof cases
    case 1
    then have "\<exists>n. \<not> xw_Wait w n" using w by (auto simp: wait_token_def split: if_splits)
    then show ?thesis using that(2) run 1 2 by simp
  next
    case 2
    then have "\<exists>n t. \<not> xw_Send w n t" using g by (auto simp: give_text_def)
    then show ?thesis using that(3) run 2 3 Some by simp
  next
    case 3: 3
    then show ?thesis using that(4) run Some \<open>xs_sends e3 = xs_sends e @ [t]\<close>
        \<open>xs_seqNum e3 = xs_seqNum e + 1\<close> \<open>same_core e e3\<close> by simp
  qed
qed

lemma send_chunks_core: "same_core e (snd (send_chunks env w cs e))"
proof (induction cs arbitrary: e)
  case (Cons c cs)
  show ?case
    by (cases rule: send_chunks_Cons_cases [of env w c cs e])
      (use Cons.IH same_core_trans in \<open>auto simp del: send_chunks.simps\<close>)
qed simp

lemma sendFrame_core: "same_core e (snd (sendFrame env w fr e))"
  by (simp add: sendFrame_def send_chunks_core)

text \<open>The chunks as they are encoded: numbered from the counter on.\<close>

fun numbered :: "32 word \<Rightarrow> frame list \<Rightarrow> frame list" where
  "numbered seq [] = []"
| "numbered seq (c # cs) = c\<lparr>fr_SeqNum := seq + 1\<rparr> # numbered (seq + 1) cs"

lemma length_numbered [simp]: "length (numbered seq cs) = length cs"
  by (induction cs arbitrary: seq) auto

lemma numbered_seq: "map fr_SeqNum (numbered (of_nat n) cs) = map of_nat [Suc n..<Suc n + length cs]"
proof (induction cs arbitrary: n)
  case (Cons c cs)
  have "[Suc n..<Suc n + length (c # cs)] = Suc n # [Suc (Suc n)..<Suc (Suc n) + length cs]"
    using upt_conv_Cons [of "Suc n" "Suc n + length (c # cs)"] by simp
  then show ?case using Cons.IH [of "Suc n"] by (simp add: add.commute)
qed simp

lemma send_chunks_texts:
  "\<exists>k \<le> length cs.
     xs_sends (snd (send_chunks env w cs e)) =
       xs_sends e @ map (\<lambda>c. the (xe_encode env c)) (take k (numbered (xs_seqNum e) cs)) \<and>
     (fst (send_chunks env w cs e) = None \<longrightarrow> k = length cs)"
proof (induction cs arbitrary: e)
  case (Cons c cs)
  show ?case
  proof (cases rule: send_chunks_Cons_cases [of env w c cs e])
    case (encode e1)
    then show ?thesis by (intro exI [of _ 0]) (simp del: send_chunks.simps)
  next
    case (wait e2)
    then show ?thesis by (intro exI [of _ 0]) (simp del: send_chunks.simps)
  next
    case (send t e3)
    then show ?thesis by (intro exI [of _ 1]) (simp del: send_chunks.simps)
  next
    case (go t e3)
    obtain k where k: "k \<le> length cs"
      "xs_sends (snd (send_chunks env w cs e3)) =
         xs_sends e3 @ map (\<lambda>c. the (xe_encode env c)) (take k (numbered (xs_seqNum e3) cs))"
      "fst (send_chunks env w cs e3) = None \<longrightarrow> k = length cs"
      using Cons.IH [of e3] by (elim exE conjE) (rule that; assumption)
    have "xs_sends (snd (send_chunks env w (c # cs) e)) =
        xs_sends e @ map (\<lambda>c. the (xe_encode env c)) (take (Suc k) (numbered (xs_seqNum e) (c # cs)))"
      unfolding go(1) k(2) go(3,4) by (simp add: go(2))
    moreover have "fst (send_chunks env w (c # cs) e) = None \<longrightarrow> Suc k = length (c # cs)"
      unfolding go(1) using k(3) by simp
    ultimately show ?thesis using k(1) by (intro exI [of _ "Suc k"]) (simp only: length_Cons Suc_le_mono simp_thms)
  qed
qed simp

lemma sendFrame_texts:
  "\<exists>k \<le> length (xe_chunk env fr).
     xs_sends (snd (sendFrame env w fr e)) =
       xs_sends e @ map (\<lambda>c. the (xe_encode env c)) (take k (numbered (xs_seqNum e) (xe_chunk env fr))) \<and>
     (fst (sendFrame env w fr e) = None \<longrightarrow> k = length (xe_chunk env fr))"
  unfolding sendFrame_def by (rule send_chunks_texts)

text \<open>When nothing fails every chunk goes out and the counter has moved by their number.\<close>

definition no_failures :: "exit_env \<Rightarrow> exit_world \<Rightarrow> bool" where
  "no_failures env w \<longleftrightarrow>
     (\<forall>c. xe_encode env c \<noteq> None) \<and> (\<forall>n. xw_Wait w n) \<and> (\<forall>n t. xw_Send w n t)"

lemma send_chunks_ok:
  assumes "no_failures env w"
  shows "fst (send_chunks env w cs e) = None \<and>
    xs_seqNum (snd (send_chunks env w cs e)) = xs_seqNum e + of_nat (length cs)"
proof (induction cs arbitrary: e)
  case (Cons c cs)
  show ?case
  proof (cases rule: send_chunks_Cons_cases [of env w c cs e])
    case (go t e3)
    then show ?thesis using Cons.IH [of e3] by (simp add: add.assoc del: send_chunks.simps)
  qed (use assms no_failures_def in blast)+
qed simp

section \<open>The decision behind a reply\<close>

text \<open>
  What a request is answered with, as a function: the response relayed and its payload, or a
  refusal. \<open>o\<close> is the outcome of \<^verbatim>\<open>client.Do\<close>.
\<close>

datatype reply = Relay relayResponse string | Refuse err_code int string

definition decide_response :: "exit_env \<Rightarrow> PolicyConfig \<Rightarrow> upstream_response \<Rightarrow> reply" where
  "decide_response env pol resp =
     (if content_type_denied env pol (up_Header resp)
      then Refuse ErrCodePolicyDenied 403 ''response content-type denied by policy''
      else case ReadAll_limit (wrap64 (max_response_bytes pol + 1)) (up_Body resp) of
        None \<Rightarrow> Refuse ErrCodeInternalError 502 ''failed to read upstream response''
      | Some bdy \<Rightarrow>
          if int (length bdy) > max_response_bytes pol
          then Refuse ErrCodeResponseTooLarge 502 ''response too large''
          else
            let rel = \<lparr>rp_StatusCode = up_Status resp, rp_Headers = up_Header resp, rp_Body = bdy\<rparr>
            in case xe_marshal env rel of
                 None \<Rightarrow> Refuse ErrCodeInternalError 500 ''internal error''
               | Some payload \<Rightarrow> Relay rel payload)"

definition accepted :: "exit_env \<Rightarrow> PolicyConfig \<Rightarrow> frame \<Rightarrow> relayRequest option" where
  "accepted env pol fr =
     (case xe_unmarshal env (fr_Payload fr) of
        None \<Rightarrow> None
      | Some req \<Rightarrow>
          if CheckRequest (xe_policy env) pol (rr_URL req) = None \<and> NewRequest_ok (rr_Method req) (rr_URL req)
          then Some req else None)"

definition decide :: "exit_env \<Rightarrow> PolicyConfig \<Rightarrow> (out_request \<Rightarrow> do_outcome) \<Rightarrow> frame \<Rightarrow> reply" where
  "decide env pol do fr =
     (case accepted env pol fr of
        Some req \<Rightarrow>
          (case do (outbound req) of
             DoTimeout \<Rightarrow> Refuse ErrCodeUpstreamTimeout 504 ''upstream timeout''
           | DoError \<Rightarrow> Refuse ErrCodeUpstreamUnavailable 502 ''upstream unavailable''
           | DoResponse resp \<Rightarrow> decide_response env pol resp)
      | None \<Rightarrow>
          (case xe_unmarshal env (fr_Payload fr) of
             None \<Rightarrow> Refuse ErrCodeBadRequest 400 ''invalid request payload''
           | Some req \<Rightarrow>
               if CheckRequest (xe_policy env) pol (rr_URL req) \<noteq> None
               then Refuse ErrCodePolicyDenied 403 ''request denied by policy''
               else Refuse ErrCodeBadRequest 400 ''could not build upstream request''))"

definition reply_frame :: "exit_env \<Rightarrow> frame \<Rightarrow> reply \<Rightarrow> frame" where
  "reply_frame env fr r =
     (case r of
        Relay rel payload \<Rightarrow>
          \<lparr>fr_Version = 1, fr_Type = FrameDATA, fr_SessionID = fr_SessionID fr,
           fr_RequestID = fr_RequestID fr, fr_SeqNum = 0, fr_Payload = payload, fr_Part = 0\<rparr>
      | Refuse code st msg \<Rightarrow> error_frame env fr code st msg)"

text \<open>Everything \<open>handleRequest\<close> does, in terms of the decision and of one call of \<open>sendFrame\<close>.\<close>

definition same_sender :: "HTTPExecutor \<Rightarrow> HTTPExecutor \<Rightarrow> bool" where
  "same_sender e e' \<longleftrightarrow>
     xs_seqNum e' = xs_seqNum e \<and> xs_sends e' = xs_sends e \<and> xs_waits e' = xs_waits e \<and>
     xs_limiter e' = xs_limiter e"

definition exit_counts :: "HTTPExecutor \<Rightarrow> int \<times> int \<times> int" where
  "exit_counts e =
     (me_ExitRequests (xs_metrics e), me_ExitResponses (xs_metrics e), me_ExitErrors (xs_metrics e))"

definition counted :: "reply \<Rightarrow> send_error err \<Rightarrow> int \<times> int \<times> int \<Rightarrow> int \<times> int \<times> int" where
  "counted r err = (\<lambda>(q, p, x).
     (case r of
        Relay rel payload \<Rightarrow> (incr q, if err = None then incr p else p, x)
      | Refuse code st msg \<Rightarrow> (incr q, p, incr x)))"

definition answers ::
  "exit_env \<Rightarrow> exit_world \<Rightarrow> frame \<Rightarrow> reply \<Rightarrow> out_request list \<Rightarrow> HTTPExecutor \<Rightarrow> HTTPExecutor \<Rightarrow> bool"
where
  "answers env w fr r calls e e' \<longleftrightarrow>
     xs_cfg e' = xs_cfg e \<and> xs_calls e' = xs_calls e @ calls \<and>
     (\<exists>e1. same_sender e e1 \<and>
        same_sender (snd (sendFrame env w (reply_frame env fr r) e1)) e' \<and>
        exit_counts e' = counted r (fst (sendFrame env w (reply_frame env fr r) e1)) (exit_counts e))"

lemma sendFrame_keeps:
  "xs_cfg (snd (sendFrame env w fr e)) = xs_cfg e"
  "xs_calls (snd (sendFrame env w fr e)) = xs_calls e"
  "xs_metrics (snd (sendFrame env w fr e)) = xs_metrics e"
  using sendFrame_core [of e env w fr] by (simp_all add: same_core_def)

lemmas executor_updates = exit_log_def count_ExitRequests_def count_ExitResponses_def count_ExitErrors_def

lemma answers_refuse:
  assumes "same_sender e e1" "xs_cfg e1 = xs_cfg e" "xs_calls e1 = xs_calls e @ calls"
    and "exit_counts e1 = (case exit_counts e of (q, p, x) \<Rightarrow> (incr q, p, x))"
  shows "answers env w fr (Refuse code st msg) calls e (sendError env w fr code st msg e1)"
  unfolding answers_def
  by (intro conjI exI [of _ e1])
    (use assms in \<open>auto simp: sendError_def reply_frame_def executor_updates sendFrame_keeps same_sender_def
        exit_counts_def counted_def\<close>)

lemma handleResponse_answers:
  assumes "same_sender e e1" "xs_cfg e1 = xs_cfg e" "xs_calls e1 = xs_calls e @ calls"
    and "exit_counts e1 = (case exit_counts e of (q, p, x) \<Rightarrow> (incr q, p, x))"
  shows "answers env w fr (decide_response env (Policy (xs_cfg e)) resp) calls e
    (handleResponse env w fr resp e1)"
proof -
  let ?pol = "Policy (xs_cfg e)"
  have log: "answers env w fr (Refuse code st msg) calls e (sendError env w fr code st msg (exit_log f e1))"
    for code st msg f
    by (rule answers_refuse) (use assms in \<open>auto simp: executor_updates same_sender_def exit_counts_def\<close>)
  note refuse = answers_refuse [OF assms]
  show ?thesis
  proof (cases "decide_response env ?pol resp")
    case (Refuse code st msg)
    then show ?thesis
      using log refuse assms(2)
      by (auto simp: decide_response_def handleResponse_def Let_def split: if_splits option.splits)
  next
    case (Relay rel payload)
    obtain err e2 where send: "sendFrame env w (reply_frame env fr (Relay rel payload)) e1 = (err, e2)"
      by fastforce
    then have h: "handleResponse env w fr resp e1 =
        (case err of Some x \<Rightarrow> exit_log (log_Error ''exit: send response'' []) e2 | None \<Rightarrow> count_ExitResponses e2)"
      using Relay assms(2)
      by (auto simp: decide_response_def handleResponse_def reply_frame_def Let_def split: if_splits option.splits)
    have keeps: "xs_cfg e2 = xs_cfg e1" "xs_calls e2 = xs_calls e1" "xs_metrics e2 = xs_metrics e1"
      using sendFrame_keeps [of env w "reply_frame env fr (Relay rel payload)" e1] send by simp_all
    show ?thesis
      unfolding answers_def h Relay
      by (intro conjI exI [of _ e1])
        (use assms keeps send in \<open>auto simp: executor_updates same_sender_def exit_counts_def counted_def
            split: option.splits\<close>)
  qed
qed

lemma handleRequest_answers:
  "answers env w fr
     (decide env (Policy (xs_cfg e)) (xw_Do w (length (xs_calls e))) fr)
     (case accepted env (Policy (xs_cfg e)) fr of None \<Rightarrow> [] | Some req \<Rightarrow> [outbound req])
     e (handleRequest env w fr e)"
proof -
  let ?pol = "Policy (xs_cfg e)" and ?e1 = "count_ExitRequests e"
  have base: "same_sender e ?e1" "xs_cfg ?e1 = xs_cfg e" "xs_calls ?e1 = xs_calls e @ []"
    "exit_counts ?e1 = (case exit_counts e of (q, p, x) \<Rightarrow> (incr q, p, x))"
    by (simp_all add: executor_updates same_sender_def exit_counts_def)
  have logged: "same_sender e (exit_log f e1) \<longleftrightarrow> same_sender e e1" "xs_cfg (exit_log f e1) = xs_cfg e1"
    "xs_calls (exit_log f e1) = xs_calls e1" "exit_counts (exit_log f e1) = exit_counts e1" for f e1
    by (simp_all add: executor_updates same_sender_def exit_counts_def)
  show ?thesis
  proof (cases "accepted env ?pol fr")
    case None
    then show ?thesis
      using base
      by (auto simp: accepted_def decide_def handleRequest_def Let_def logged
          intro!: answers_refuse split: if_splits option.splits)
  next
    case (Some req)
    let ?e2 = "?e1\<lparr>xs_calls := xs_calls e @ [outbound req]\<rparr>"
    have base2: "same_sender e ?e2" "xs_cfg ?e2 = xs_cfg e" "xs_calls ?e2 = xs_calls e @ [outbound req]"
      "exit_counts ?e2 = (case exit_counts e of (q, p, x) \<Rightarrow> (incr q, p, x))"
      using base by (simp_all add: same_sender_def exit_counts_def)
    have "handleRequest env w fr e =
        (case xw_Do w (length (xs_calls e)) (outbound req) of
           DoTimeout \<Rightarrow> sendError env w fr ErrCodeUpstreamTimeout 504 ''upstream timeout''
             (exit_log (log_Error ''exit: outbound request'' []) ?e2)
         | DoError \<Rightarrow> sendError env w fr ErrCodeUpstreamUnavailable 502 ''upstream unavailable''
             (exit_log (log_Error ''exit: outbound request'' []) ?e2)
         | DoResponse resp \<Rightarrow> handleResponse env w fr resp ?e2)"
      using Some base by (auto simp: accepted_def handleRequest_def Let_def split: if_splits option.splits)
    then show ?thesis
      using base2 handleResponse_answers [OF base2] Some
      by (auto simp: decide_def logged intro!: answers_refuse split: do_outcome.split)
  qed
qed

section \<open>Facts about stripping\<close>

lemma Header_Values_fold_Del:
  "Header_Values (fold (\<lambda>x. Header_Del (f x)) xs h) k =
     (if canonical_key k \<in> (\<lambda>x. canonical_key (f x)) ` set xs then [] else Header_Values h k)"
  by (induction xs arbitrary: h) (auto simp: header_values)

text \<open>The names the first \<open>Connection\<close> line lists.\<close>

definition connection_names :: "header \<Rightarrow> string set" where
  "connection_names h =
     (let conn = Header_Get h ''Connection'' in
      if conn = '''' then {} else (\<lambda>x. canonical_key (TrimSpace x)) ` set (Split conn (CHR '','')))"

lemma Header_Values_strip:
  "Header_Values (strip_hop_by_hop h) k =
     (if canonical_key k \<in> canonical_key ` set hopByHopHeaders \<or> canonical_key k \<in> connection_names h
      then [] else Header_Values h k)"
proof -
  have "fold Header_Del xs g = fold (\<lambda>x. Header_Del (id x)) xs g" for xs g by simp
  then show ?thesis
    unfolding strip_hop_by_hop_def Let_def
    by (simp only: Header_Values_fold_Del id_def)
      (auto simp: connection_names_def Let_def Header_Values_fold_Del)
qed

text \<open>Whatever every request and every log record preserve holds after \<open>Run\<close>.\<close>

lemma exit_Run_preserves:
  assumes "\<And>e fr. P e \<Longrightarrow> P (handleRequest env w fr e)" "\<And>e f. P e \<Longrightarrow> P (exit_log f e)"
  shows "P e \<Longrightarrow> P (snd (snd (exit_Run env w reasm evs (r, e))))"
proof (induction evs arbitrary: r e)
  case (Cons ev evs)
  show ?case
  proof (cases ev)
    case (GotMessage t)
    show ?thesis
    proof (cases "xe_decode env t")
      case None
      then show ?thesis using GotMessage Cons assms(2) by simp
    next
      case (Some fr)
      obtain whole r' where "reasm r fr = (whole, r')" by fastforce
      then show ?thesis using GotMessage Some Cons assms(1) by (cases whole) auto
    qed
  qed (use Cons.prems in auto)
qed simp

lemma new_executor:
  "xs_cfg (NewHTTPExecutor nano cfg) = cfg" "xs_calls (NewHTTPExecutor nano cfg) = []"
  "xs_cfg (exit_WithRateLimiter (NewHTTPExecutor nano cfg)) = cfg"
  "xs_calls (exit_WithRateLimiter (NewHTTPExecutor nano cfg)) = []"
  unfolding NewHTTPExecutor_def exit_WithRateLimiter_def by (simp_all only: HTTPExecutor.simps)

text \<open>The numbering of everything sent so far, when nothing fails.\<close>

definition seq_inv :: "exit_env \<Rightarrow> HTTPExecutor \<Rightarrow> bool" where
  "seq_inv env e \<longleftrightarrow>
     (\<exists>frs :: frame list. xs_sends e = map (\<lambda>c. the (xe_encode env c)) frs \<and>
        map fr_SeqNum frs = map of_nat [1..<Suc (length frs)] \<and> xs_seqNum e = of_nat (length frs))"

lemma seq_inv_handleRequest:
  assumes ok: "no_failures env w" and inv: "seq_inv env e"
  shows "seq_inv env (handleRequest env w fr e)"
proof -
  define rf where "rf = reply_frame env fr (decide env (Policy (xs_cfg e)) (xw_Do w (length (xs_calls e))) fr)"
  obtain e1 where e1: "same_sender e e1" "same_sender (snd (sendFrame env w rf e1)) (handleRequest env w fr e)"
    using handleRequest_answers [of env w fr e] by (auto simp: answers_def rf_def)
  obtain frs :: "frame list" where frs: "xs_sends e = map (\<lambda>c. the (xe_encode env c)) frs"
    "map fr_SeqNum frs = map of_nat [1..<Suc (length frs)]" "xs_seqNum e = of_nat (length frs)"
    using inv by (auto simp: seq_inv_def)
  let ?cs = "numbered (xs_seqNum e) (xe_chunk env rf)"
  have s: "fst (sendFrame env w rf e1) = None"
    "xs_seqNum (snd (sendFrame env w rf e1)) = xs_seqNum e1 + of_nat (length (xe_chunk env rf))"
    using send_chunks_ok [OF ok] by (simp_all add: sendFrame_def)
  have "xs_sends (snd (sendFrame env w rf e1)) = xs_sends e1 @
      map (\<lambda>c. the (xe_encode env c)) (numbered (xs_seqNum e1) (xe_chunk env rf))"
    using sendFrame_texts [of env rf w e1] s(1) by auto
  then have sends: "xs_sends (handleRequest env w fr e) = map (\<lambda>c. the (xe_encode env c)) (frs @ ?cs)"
    using e1 frs(1) by (simp add: same_sender_def)
  have "[1..<Suc (length (frs @ ?cs))] =
      [1..<Suc (length frs)] @ [Suc (length frs)..<Suc (length frs) + length (xe_chunk env rf)]"
    using upt_add_eq_append [of 1 "Suc (length frs)" "length (xe_chunk env rf)"] by simp
  then have "map fr_SeqNum (frs @ ?cs) = map of_nat [1..<Suc (length (frs @ ?cs))]"
    using frs(2) numbered_seq [of "length frs" "xe_chunk env rf"] by (simp add: frs(3))
  moreover have "xs_seqNum (handleRequest env w fr e) = of_nat (length (frs @ ?cs))"
    using e1 s(2) frs(3) by (simp add: same_sender_def)
  ultimately show ?thesis unfolding seq_inv_def using sends by blast
qed

lemma inj_of_nat32: "inj_on (of_nat :: nat \<Rightarrow> 32 word) {..<2 ^ 32}"
proof (rule inj_onI)
  fix a b assume "a \<in> {..<2 ^ 32}" "b \<in> {..<2 ^ 32}" "(of_nat a :: 32 word) = of_nat b"
  then have "a < 2 ^ 32" "b < 2 ^ 32" "unat (of_nat a :: 32 word) = unat (of_nat b :: 32 word)" by auto
  then show "a = b" by (simp add: unat_of_nat take_bit_nat_eq_self)
qed

lemma distinct_of_nat32:
  assumes "n \<le> 2 ^ 32" shows "distinct (map (of_nat :: nat \<Rightarrow> 32 word) [1..<n])"
  using assms by (auto simp: distinct_map intro!: inj_on_subset [OF inj_of_nat32])

text \<open>
  \<open>rf\<close> is the frame a request was answered with: what was sent are its numbered chunks, or the
  first of them where sending failed.
\<close>

definition sent_reply :: "exit_env \<Rightarrow> exit_world \<Rightarrow> HTTPExecutor \<Rightarrow> HTTPExecutor \<Rightarrow> frame \<Rightarrow> bool" where
  "sent_reply env w e e' rf \<longleftrightarrow>
     (\<exists>k \<le> length (xe_chunk env rf).
        xs_sends e' = xs_sends e @
          map (\<lambda>c. the (xe_encode env c)) (take k (numbered (xs_seqNum e) (xe_chunk env rf))) \<and>
        (no_failures env w \<longrightarrow> k = length (xe_chunk env rf)))"

lemma sent_decision:
  "sent_reply env w e (handleRequest env w fr e)
     (reply_frame env fr (decide env (Policy (xs_cfg e)) (xw_Do w (length (xs_calls e))) fr))"
proof -
  define rf where "rf = reply_frame env fr (decide env (Policy (xs_cfg e)) (xw_Do w (length (xs_calls e))) fr)"
  obtain e1 where e1: "same_sender e e1" "same_sender (snd (sendFrame env w rf e1)) (handleRequest env w fr e)"
    using handleRequest_answers [of env w fr e] by (auto simp: answers_def rf_def)
  obtain k where k: "k \<le> length (xe_chunk env rf)"
    "xs_sends (snd (sendFrame env w rf e1)) =
       xs_sends e1 @ map (\<lambda>c. the (xe_encode env c)) (take k (numbered (xs_seqNum e1) (xe_chunk env rf)))"
    "fst (sendFrame env w rf e1) = None \<longrightarrow> k = length (xe_chunk env rf)"
    using sendFrame_texts [of env rf w e1] by (elim exE conjE) (rule that; assumption)
  have "fst (sendFrame env w rf e1) = None" if "no_failures env w"
    using send_chunks_ok [OF that] by (simp add: sendFrame_def)
  then show ?thesis
    unfolding sent_reply_def rf_def [symmetric] using e1 k by (intro exI [of _ k]) (simp add: same_sender_def)
qed

text \<open>An accepted request as it goes out.\<close>

lemma accepted_outbound:
  assumes "accepted env pol fr = Some req"
  shows "CheckRequest (xe_policy env) pol (oq_URL (outbound req)) = None \<and>
    NewRequest_ok (oq_Method (outbound req)) (oq_URL (outbound req)) \<and>
    (\<forall>h \<in> set hopByHopHeaders. Header_Values (oq_Header (outbound req)) h = [])"
  using assms by (auto simp: accepted_def outbound_def Header_Values_strip NewRequest_ok_def request_method_def
      is_token_char_def is_letter_def split: option.splits if_splits)

section \<open>Properties\<close>

text \<open>
  nothing reaches the network unchecked. Whatever messages arrive and however the network
  behaves, every request the exit node has handed to its HTTP client had a URL that the policy allows,
  was well formed, and carried none of the hop-by-hop headers.
\<close>

theorem outbound_requests_policed:
  assumes "exit_Run env w reasm evs (r, e) = (res, r', e')"
    and "e = NewHTTPExecutor nano cfg \<or> e = exit_WithRateLimiter (NewHTTPExecutor nano cfg)"
    and "oq \<in> set (xs_calls e')"
  shows "CheckRequest (xe_policy env) (Policy cfg) (oq_URL oq) = None \<and>
    NewRequest_ok (oq_Method oq) (oq_URL oq) \<and>
    (\<forall>h \<in> set hopByHopHeaders. Header_Values (oq_Header oq) h = [])"
proof -
  let ?ok = "\<lambda>oq. CheckRequest (xe_policy env) (Policy cfg) (oq_URL oq) = None \<and>
    NewRequest_ok (oq_Method oq) (oq_URL oq) \<and> (\<forall>h \<in> set hopByHopHeaders. Header_Values (oq_Header oq) h = [])"
  define P where "P e \<longleftrightarrow> xs_cfg e = cfg \<and> (\<forall>oq \<in> set (xs_calls e). ?ok oq)" for e :: HTTPExecutor
  have acc: "?ok (outbound req)" if "accepted env (Policy cfg) fr = Some req" for fr req
    using that by (rule accepted_outbound)
  have step: "P (handleRequest env w fr e)" if "P e" for e fr
  proof -
    have "xs_cfg (handleRequest env w fr e) = xs_cfg e \<and>
        xs_calls (handleRequest env w fr e) = xs_calls e @
          (case accepted env (Policy cfg) fr of None \<Rightarrow> [] | Some req \<Rightarrow> [outbound req])"
      using handleRequest_answers [of env w fr e] that by (simp add: answers_def P_def)
    then show ?thesis using that acc [of fr] unfolding P_def
      by (cases "accepted env (Policy cfg) fr") auto
  qed
  have lg: "P (exit_log f e)" if "P e" for e f using that by (simp add: exit_log_def P_def)
  have start: "P e" using assms(2) new_executor [of _ cfg] unfolding P_def by fastforce
  have "P (snd (snd (exit_Run env w reasm evs (r, e))))"
    by (rule exit_Run_preserves [where P = P]) (erule step, erule lg, rule start)
  then show ?thesis using assms(1,3) by (simp add: P_def)
qed

text \<open>
  C33: header forwarding. For every field name, the outbound request carries no value when the name
  is one of the hop-by-hop names or is listed in the first \<open>Connection\<close> line, in any case, and
  otherwise exactly the values the relayed request gave under any spelling of the name. In
  particular names listed only in a second \<open>Connection\<close> line are forwarded.
\<close>

theorem outbound_header_values:
  "Header_Values (oq_Header (outbound req)) k =
    (if canonical_key k \<in> canonical_key ` set hopByHopHeaders \<or>
        canonical_key k \<in> connection_names (add_all (rr_Headers req) [])
     then []
     else concat (map snd (filter (\<lambda>(k', vs). canonical_key k' = canonical_key k) (rr_Headers req))))"
  by (simp add: outbound_def Header_Values_strip Header_Values_add_all) (simp add: Header_Values_def)

lemma outbound_header_values_witness:
  "Header_Values (oq_Header (outbound
     \<lparr>rr_Method = ''GET'', rr_URL = ''http://h/'',
      rr_Headers = [(''Connection'', [''close'', ''X-Hop'']), (''x-hop'', [''s''])], rr_Body = ''''\<rparr>)) ''X-Hop''
     = [''s'']"
  unfolding outbound_header_values by code_simp

text \<open>
  one reply per request. Handling a request sends the chunks of exactly one frame, with the
  session and request identifiers of the request, numbered consecutively from the executor's
  counter; all of them when nothing fails, a prefix otherwise. Without failures the request counter
  and exactly one of the response and error counters go up by one.
\<close>

theorem one_reply_per_request:
  fixes e :: HTTPExecutor
  shows "\<exists>rf k. fr_SessionID rf = fr_SessionID fr \<and> fr_RequestID rf = fr_RequestID fr \<and>
    (fr_Type rf = FrameDATA \<or> fr_Type rf = FrameERROR) \<and> k \<le> length (xe_chunk env rf) \<and>
    xs_sends (handleRequest env w fr e) = xs_sends e @
      map (\<lambda>c. the (xe_encode env c)) (take k (numbered (xs_seqNum e) (xe_chunk env rf))) \<and>
    (no_failures env w \<longrightarrow> k = length (xe_chunk env rf) \<and>
       exit_counts (handleRequest env w fr e) =
         (case exit_counts e of (q, p, x) \<Rightarrow>
            if fr_Type rf = FrameDATA then (incr q, incr p, x) else (incr q, p, incr x)))"
proof -
  let ?r = "decide env (Policy (xs_cfg e)) (xw_Do w (length (xs_calls e))) fr"
  define rf where "rf = reply_frame env fr ?r"
  obtain e1 where e1: "same_sender e e1" "same_sender (snd (sendFrame env w rf e1)) (handleRequest env w fr e)"
    "exit_counts (handleRequest env w fr e) = counted ?r (fst (sendFrame env w rf e1)) (exit_counts e)"
    using handleRequest_answers [of env w fr e] by (auto simp: answers_def rf_def)
  obtain k where k: "k \<le> length (xe_chunk env rf)"
    "xs_sends (snd (sendFrame env w rf e1)) =
       xs_sends e1 @ map (\<lambda>c. the (xe_encode env c)) (take k (numbered (xs_seqNum e1) (xe_chunk env rf)))"
    "fst (sendFrame env w rf e1) = None \<longrightarrow> k = length (xe_chunk env rf)"
    using sendFrame_texts [of env rf w e1] by (elim exE conjE) (rule that; assumption)
  have ok: "fst (sendFrame env w rf e1) = None" if "no_failures env w"
    using send_chunks_ok [OF that] by (simp add: sendFrame_def)
  have "fr_SessionID rf = fr_SessionID fr \<and> fr_RequestID rf = fr_RequestID fr \<and>
    (fr_Type rf = FrameDATA \<or> fr_Type rf = FrameERROR)"
    by (auto simp: rf_def reply_frame_def error_frame_def split: reply.split)
  moreover have "xs_sends (handleRequest env w fr e) = xs_sends e @
      map (\<lambda>c. the (xe_encode env c)) (take k (numbered (xs_seqNum e) (xe_chunk env rf)))"
    using e1(1,2) k(2) by (simp add: same_sender_def)
  moreover have "exit_counts (handleRequest env w fr e) =
         (case exit_counts e of (q, p, x) \<Rightarrow>
            if fr_Type rf = FrameDATA then (incr q, incr p, x) else (incr q, p, incr x))"
    if "no_failures env w"
    unfolding e1(3) ok [OF that]
    by (auto simp: counted_def rf_def reply_frame_def error_frame_def split: reply.split)
  moreover have "k = length (xe_chunk env rf)" if "no_failures env w" using k(3) ok [OF that] by simp
  ultimately show ?thesis using k(1)
    by (intro exI [of _ rf] exI [of _ k] conjI impI) (simp_all only: simp_thms)
qed

lemma decide_Relay:
  assumes "decide env pol do fr = Relay rel payload" "pl_MaxResponseBytes pol < max_int64"
  shows "\<exists>req resp. accepted env pol fr = Some req \<and> do (outbound req) = DoResponse resp \<and>
    rel = \<lparr>rp_StatusCode = up_Status resp, rp_Headers = up_Header resp, rp_Body = bd_data (up_Body resp)\<rparr> \<and>
    \<not> bd_fails (up_Body resp) \<and> xe_marshal env rel = Some payload \<and>
    int (length (rp_Body rel)) \<le> max_response_bytes pol \<and> \<not> content_type_denied env pol (up_Header resp)"
proof -
  let ?mx = "max_response_bytes pol"
  have w: "wrap64 (?mx + 1) = ?mx + 1" "0 < ?mx"
    by (rule wrap64_id)
      (use assms(2) in \<open>auto simp: max_response_bytes_def int64_range_def min_int64_def max_int64_def\<close>)
  obtain req resp where r: "accepted env pol fr = Some req" "do (outbound req) = DoResponse resp"
    "decide_response env pol resp = Relay rel payload"
    using assms(1) by (auto simp: decide_def split: option.splits do_outcome.splits if_splits)
  have body: "b = bd_data (up_Body resp) \<and> \<not> bd_fails (up_Body resp)"
    if "ReadAll_limit (?mx + 1) (up_Body resp) = Some b" "\<not> int (length b) > ?mx" for b
    using that w(2) by (auto simp: ReadAll_limit_def split: if_splits)
  show ?thesis
    using r body by (auto simp: decide_response_def w(1) Let_def split: if_splits option.splits)
qed

text \<open>
  C28: the integrity of a relayed response. Whatever a request is answered with, if it is a data
  frame then the request was readable, allowed and well formed, it was handed to the HTTP client exactly
  once, and the frame holds the upstream's status and headers and its complete body, never a
  truncated one, no larger than the limit and of a permitted content type (or none).
\<close>

theorem relayed_response_complete:
  fixes e :: HTTPExecutor
  assumes "pl_MaxResponseBytes (Policy (xs_cfg e)) < max_int64"
  shows "\<exists>rf. sent_reply env w e (handleRequest env w fr e) rf \<and>
    (fr_Type rf = FrameDATA \<longrightarrow>
       (\<exists>req resp. xe_unmarshal env (fr_Payload fr) = Some req \<and>
          CheckRequest (xe_policy env) (Policy (xs_cfg e)) (rr_URL req) = None \<and>
          NewRequest_ok (rr_Method req) (rr_URL req) \<and>
          xs_calls (handleRequest env w fr e) = xs_calls e @ [outbound req] \<and>
          xw_Do w (length (xs_calls e)) (outbound req) = DoResponse resp \<and>
          xe_marshal env \<lparr>rp_StatusCode = up_Status resp, rp_Headers = up_Header resp,
            rp_Body = bd_data (up_Body resp)\<rparr> = Some (fr_Payload rf) \<and>
          \<not> bd_fails (up_Body resp) \<and>
          int (length (bd_data (up_Body resp))) \<le> max_response_bytes (Policy (xs_cfg e)) \<and>
          \<not> content_type_denied env (Policy (xs_cfg e)) (up_Header resp)))"
proof -
  let ?pol = "Policy (xs_cfg e)"
  let ?d = "decide env ?pol (xw_Do w (length (xs_calls e))) fr"
  have sent: "sent_reply env w e (handleRequest env w fr e) (reply_frame env fr ?d)" by (rule sent_decision)
  show ?thesis
  proof (cases ?d)
    case (Relay rel payload)
    obtain req resp where d: "accepted env ?pol fr = Some req" "xw_Do w (length (xs_calls e)) (outbound req) = DoResponse resp"
      "rel = \<lparr>rp_StatusCode = up_Status resp, rp_Headers = up_Header resp, rp_Body = bd_data (up_Body resp)\<rparr>"
      "\<not> bd_fails (up_Body resp)" "xe_marshal env rel = Some payload"
      "int (length (rp_Body rel)) \<le> max_response_bytes ?pol" "\<not> content_type_denied env ?pol (up_Header resp)"
      using decide_Relay [OF Relay assms] by (elim exE conjE) (rule that; assumption)
    have "xs_calls (handleRequest env w fr e) = xs_calls e @ [outbound req]"
      using handleRequest_answers [of env w fr e] d(1) by (simp add: answers_def)
    moreover have "xe_unmarshal env (fr_Payload fr) = Some req" "CheckRequest (xe_policy env) ?pol (rr_URL req) = None"
      "NewRequest_ok (rr_Method req) (rr_URL req)"
      using d(1) by (auto simp: accepted_def split: option.splits if_splits)
    ultimately show ?thesis
      using sent d(2-7) unfolding Relay by (intro exI [of _ "reply_frame env fr (Relay rel payload)"] conjI impI exI)
        (simp_all add: reply_frame_def)
  next
    case (Refuse code st msg)
    then show ?thesis using sent
      by (intro exI [of _ "reply_frame env fr ?d"]) (simp add: reply_frame_def error_frame_def)
  qed
qed

text \<open>
  a limit of the largest \<open>int64\<close> overflows. With \<open>max_response_bytes\<close> at that value the read
  limit wraps to a negative number, nothing is read, and every response is relayed with an empty
  body.
\<close>

theorem largest_limit_empties_bodies:
  assumes "decide env pol do fr = Relay rel payload" "pl_MaxResponseBytes pol = max_int64"
  shows "rp_Body rel = ''''"
proof -
  have "wrap64 (max_response_bytes pol + 1) = min_int64"
    using assms(2) by (simp add: max_response_bytes_def max_int64_def min_int64_def wrap64_def)
  then have "ReadAll_limit (wrap64 (max_response_bytes pol + 1)) b = Some ''''" for b
    by (simp add: ReadAll_limit_def min_int64_def)
  then show ?thesis
    using assms(1)
    by (auto simp: decide_def decide_response_def Let_def
        split: option.splits do_outcome.splits if_splits)
qed

lemma decide_Refuse:
  assumes "decide env pol do fr = Refuse code st msg"
  shows "(code, st) \<in> {(ErrCodeBadRequest, 400), (ErrCodePolicyDenied, 403), (ErrCodeUpstreamUnavailable, 502),
      (ErrCodeUpstreamTimeout, 504), (ErrCodeResponseTooLarge, 502), (ErrCodeInternalError, 502),
      (ErrCodeInternalError, 500)} \<and>
    (code = ErrCodePolicyDenied \<longleftrightarrow>
       (\<exists>req. xe_unmarshal env (fr_Payload fr) = Some req \<and>
          (CheckRequest (xe_policy env) pol (rr_URL req) \<noteq> None \<or>
           (\<exists>resp. accepted env pol fr = Some req \<and> do (outbound req) = DoResponse resp \<and>
              content_type_denied env pol (up_Header resp))))) \<and>
    (code = ErrCodeBadRequest \<longrightarrow> accepted env pol fr = None)"
  using assms
  by (auto simp: decide_def decide_response_def accepted_def Let_def
      split: option.splits do_outcome.splits if_splits)

text \<open>
  C34: refusals. If a request is answered with an error frame, the frame carries one of the code and
  status pairs below; the code is \<open>policy_denied\<close> exactly when the request policy or the content-type policy
  refuses, and a request the request policy refuses, or one that is malformed, never reaches the network.
\<close>

theorem refusal_codes:
  fixes e :: HTTPExecutor
  shows "\<exists>rf. sent_reply env w e (handleRequest env w fr e) rf \<and>
    (fr_Type rf = FrameERROR \<longrightarrow>
      (\<exists>code st msg. rf = error_frame env fr code st msg \<and>
        (code, st) \<in> {(ErrCodeBadRequest, 400), (ErrCodePolicyDenied, 403), (ErrCodeUpstreamUnavailable, 502),
          (ErrCodeUpstreamTimeout, 504), (ErrCodeResponseTooLarge, 502), (ErrCodeInternalError, 502),
          (ErrCodeInternalError, 500)} \<and>
        (code = ErrCodePolicyDenied \<longleftrightarrow>
           (\<exists>req. xe_unmarshal env (fr_Payload fr) = Some req \<and>
              (CheckRequest (xe_policy env) (Policy (xs_cfg e)) (rr_URL req) \<noteq> None \<or>
               (\<exists>resp. NewRequest_ok (rr_Method req) (rr_URL req) \<and>
                  xw_Do w (length (xs_calls e)) (outbound req) = DoResponse resp \<and>
                  content_type_denied env (Policy (xs_cfg e)) (up_Header resp))))) \<and>
        (code = ErrCodeBadRequest \<longrightarrow> xs_calls (handleRequest env w fr e) = xs_calls e))) \<and>
    (\<forall>req. xe_unmarshal env (fr_Payload fr) = Some req \<and>
        CheckRequest (xe_policy env) (Policy (xs_cfg e)) (rr_URL req) \<noteq> None \<longrightarrow>
       fr_Type rf = FrameERROR \<and> xs_calls (handleRequest env w fr e) = xs_calls e)"
proof -
  let ?pol = "Policy (xs_cfg e)"
  let ?d = "decide env ?pol (xw_Do w (length (xs_calls e))) fr"
  have sent: "sent_reply env w e (handleRequest env w fr e) (reply_frame env fr ?d)" by (rule sent_decision)
  have calls: "xs_calls (handleRequest env w fr e) = xs_calls e" if "accepted env ?pol fr = None"
    using handleRequest_answers [of env w fr e] that by (simp add: answers_def)
  have denied: "accepted env ?pol fr = None \<and> fr_Type (reply_frame env fr ?d) = FrameERROR"
    if "xe_unmarshal env (fr_Payload fr) = Some req" "CheckRequest (xe_policy env) ?pol (rr_URL req) \<noteq> None" for req
    using that by (simp add: accepted_def decide_def reply_frame_def error_frame_def)
  show ?thesis
  proof (intro exI [of _ "reply_frame env fr ?d"] conjI sent impI allI)
    assume t: "fr_Type (reply_frame env fr ?d) = FrameERROR"
    show "\<exists>code st msg. reply_frame env fr ?d = error_frame env fr code st msg \<and>
        (code, st) \<in> {(ErrCodeBadRequest, 400), (ErrCodePolicyDenied, 403), (ErrCodeUpstreamUnavailable, 502),
          (ErrCodeUpstreamTimeout, 504), (ErrCodeResponseTooLarge, 502), (ErrCodeInternalError, 502),
          (ErrCodeInternalError, 500)} \<and>
        (code = ErrCodePolicyDenied \<longleftrightarrow>
           (\<exists>req. xe_unmarshal env (fr_Payload fr) = Some req \<and>
              (CheckRequest (xe_policy env) ?pol (rr_URL req) \<noteq> None \<or>
               (\<exists>resp. NewRequest_ok (rr_Method req) (rr_URL req) \<and>
                  xw_Do w (length (xs_calls e)) (outbound req) = DoResponse resp \<and>
                  content_type_denied env ?pol (up_Header resp))))) \<and>
        (code = ErrCodeBadRequest \<longrightarrow> xs_calls (handleRequest env w fr e) = xs_calls e)"
    proof (cases ?d)
      case (Refuse code st msg)
      note d = decide_Refuse [OF this]
      have acc: "accepted env ?pol fr = Some req \<longleftrightarrow> xe_unmarshal env (fr_Payload fr) = Some req \<and>
          CheckRequest (xe_policy env) ?pol (rr_URL req) = None \<and> NewRequest_ok (rr_Method req) (rr_URL req)" for req
        by (auto simp: accepted_def split: option.splits)
      show ?thesis
        using d calls unfolding Refuse acc
        by (intro exI [of _ code] exI [of _ st] exI [of _ msg]) (auto simp: reply_frame_def)
    qed (use t in \<open>simp add: reply_frame_def\<close>)
  qed (use denied calls in auto)
qed

text \<open>
  sequence numbers. As long as nothing fails, the texts a new executor has sent after any
  messages are the encodings of frames numbered 1, 2, 3 and so on in the order they were sent,
  whichever requests they answer: no two frames of an executor share a number before the 32-bit
  counter wraps.
\<close>

theorem sequence_numbers_consecutive:
  assumes "no_failures env w"
    and "exit_Run env w reasm evs (r, NewHTTPExecutor nano cfg) = (res, r', e')"
  shows "\<exists>frs. xs_sends e' = map (\<lambda>c. the (xe_encode env c)) frs \<and>
    map fr_SeqNum frs = map of_nat [1..<Suc (length frs)] \<and> xs_seqNum e' = of_nat (length frs) \<and>
    (length frs < 2 ^ 32 \<longrightarrow> distinct (map fr_SeqNum frs))"
proof -
  have start: "seq_inv env (NewHTTPExecutor nano cfg)"
    by (simp add: seq_inv_def NewHTTPExecutor_def)
  have "seq_inv env (snd (snd (exit_Run env w reasm evs (r, NewHTTPExecutor nano cfg))))"
    by (rule exit_Run_preserves [where P = "seq_inv env"])
      (erule seq_inv_handleRequest [OF assms(1)], simp add: seq_inv_def exit_log_def, rule start)
  then obtain frs where frs: "xs_sends e' = map (\<lambda>c. the (xe_encode env c)) frs"
    "map fr_SeqNum frs = map of_nat [1..<Suc (length frs)]" "xs_seqNum e' = of_nat (length frs)"
    using assms(2) by (auto simp: seq_inv_def)
  moreover have "distinct (map fr_SeqNum frs)" if "length frs < 2 ^ 32"
    unfolding frs(2) by (rule distinct_of_nat32) (use that in simp)
  ultimately show ?thesis by blast
qed

section \<open>A concrete exit node\<close>

definition demo_env :: exit_env where
  "demo_env =
     \<lparr>xe_policy = \<lparr>pe_lower = id, pe_IsPrivateIP = \<lambda>_. False\<rparr>,
      xe_unmarshal = \<lambda>p. if p = ''q'' then
        Some \<lparr>rr_Method = ''GET'', rr_URL = ''http://h/a'', rr_Headers = [(''TE'', [''x''])], rr_Body = ''''\<rparr>
        else None,
      xe_marshal = \<lambda>r. Some (rp_Body r),
      xe_error_payload = \<lambda>c st m. m,
      xe_chunk = \<lambda>f. [f],
      xe_encode = \<lambda>f. Some (fr_Payload f),
      xe_decode = \<lambda>t. Some \<lparr>fr_Version = 1, fr_Type = FrameDATA, fr_SessionID = ''s'',
        fr_RequestID = ''r'', fr_SeqNum = 0, fr_Payload = t, fr_Part = 0\<rparr>\<rparr>"

definition demo_policy :: PolicyConfig where
  "demo_policy =
     \<lparr>pl_DomainAllowList = [], pl_BlockPrivateRanges = True, pl_BlockedPorts = [22], pl_AllowedPorts = [],
      pl_MaxResponseBytes = 0, pl_AllowedContentTypes = [], pl_AllowedSchemes = [''http'']\<rparr>"

definition demo_body :: body where
  "demo_body = \<lparr>bd_data = ''hi'', bd_fails = False\<rparr>"

definition demo_response :: upstream_response where
  "demo_response = \<lparr>up_Status = 200, up_Header = [], up_Body = demo_body\<rparr>"

definition demo_world :: exit_world where
  "demo_world =
     \<lparr>xw_Do = \<lambda>n r. DoResponse demo_response, xw_Wait = \<lambda>n. True, xw_Send = \<lambda>n t. True\<rparr>"

definition demo_cfg :: Config where
  "demo_cfg = DefaultExitConfig\<lparr>Policy := demo_policy\<rparr>"

definition demo_frame :: "string \<Rightarrow> frame" where
  "demo_frame p = \<lparr>fr_Version = 1, fr_Type = FrameDATA, fr_SessionID = ''s'', fr_RequestID = ''r'',
     fr_SeqNum = 0, fr_Payload = p, fr_Part = 0\<rparr>"

definition demo_rel :: relayResponse where
  "demo_rel = \<lparr>rp_StatusCode = 200, rp_Headers = [], rp_Body = ''hi''\<rparr>"

lemma demo_policy_cfg: "Policy (xs_cfg (NewHTTPExecutor 3 demo_cfg)) = demo_policy"
  by (simp add: new_executor demo_cfg_def)

lemma demo_accepted:
  "map_option rr_URL (accepted demo_env demo_policy (demo_frame ''q'')) = Some ''http://h/a''"
  by code_simp

lemma demo_decide:
  "decide demo_env demo_policy (\<lambda>_. DoResponse demo_response) (demo_frame ''q'') = Relay demo_rel ''hi''"
  by code_simp

lemma demo_no_failures: "no_failures demo_env demo_world"
  by (simp add: no_failures_def demo_env_def demo_world_def)

lemma outbound_requests_policed_witness:
  "\<exists>oq e'. e' = snd (snd (exit_Run demo_env demo_world (\<lambda>r f. (Some f, r)) [GotMessage ''q'']
       ((), NewHTTPExecutor 3 demo_cfg))) \<and>
     oq \<in> set (xs_calls e') \<and> Header_Values (oq_Header oq) ''TE'' = []"
proof -
  let ?e = "NewHTTPExecutor 3 demo_cfg"
  obtain res r' e' where run: "exit_Run demo_env demo_world (\<lambda>r f. (Some f, r)) [GotMessage ''q''] ((), ?e) =
      (res, r', e')" by (metis prod_cases3)
  have "xe_decode demo_env ''q'' = Some (demo_frame ''q'')" by (simp add: demo_env_def demo_frame_def)
  with run have e': "e' = handleRequest demo_env demo_world (demo_frame ''q'') ?e" by simp
  obtain req where "accepted demo_env demo_policy (demo_frame ''q'') = Some req" using demo_accepted by blast
  then have "outbound req \<in> set (xs_calls e')"
    using handleRequest_answers [of demo_env demo_world "demo_frame ''q''" ?e]
    by (simp add: e' answers_def demo_policy_cfg)
  moreover have "''TE'' \<in> set hopByHopHeaders" by (simp add: hopByHopHeaders_def)
  ultimately show ?thesis
    using outbound_requests_policed [OF run disjI1 [OF refl], of "outbound req"] run by auto
qed

lemma one_reply_per_request_witness:
  "\<exists>rf :: frame. fr_RequestID rf = ''r'' \<and> xs_sends (handleRequest demo_env demo_world (demo_frame ''q'')
     (NewHTTPExecutor 3 demo_cfg)) = [fr_Payload rf]"
proof -
  have [simp]: "xe_chunk demo_env f = [f]" "xe_encode demo_env f = Some (fr_Payload f)" for f
    by (simp_all add: demo_env_def)
  have "xs_sends (NewHTTPExecutor 3 demo_cfg) = []" by (simp add: NewHTTPExecutor_def)
  then show ?thesis
    using one_reply_per_request [of "demo_frame ''q''" demo_env demo_world "NewHTTPExecutor 3 demo_cfg"]
      demo_no_failures
    apply (elim exE conjE)
    subgoal for rf k by (rule exI [of _ rf]) (simp add: demo_frame_def)
    done
qed

lemma demo_answer_frame:
  "sent_reply demo_env demo_world e e' rf \<Longrightarrow> xs_sends e' = xs_sends e @ [fr_Payload rf]"
  using demo_no_failures by (auto simp: sent_reply_def) (simp add: demo_env_def)

lemma relayed_response_complete_witness:
  "\<exists>rf :: frame. sent_reply demo_env demo_world (NewHTTPExecutor 3 demo_cfg)
     (handleRequest demo_env demo_world (demo_frame ''q'') (NewHTTPExecutor 3 demo_cfg)) rf \<and>
     (fr_Type rf = FrameDATA \<longrightarrow> fr_Payload rf = ''hi'')"
proof -
  let ?e = "NewHTTPExecutor 3 demo_cfg"
  have "pl_MaxResponseBytes (Policy (xs_cfg ?e)) < max_int64"
    by (simp add: demo_policy_cfg demo_policy_def max_int64_def)
  from relayed_response_complete [OF this, of demo_env demo_world "demo_frame ''q''"]
  obtain rf where "sent_reply demo_env demo_world ?e (handleRequest demo_env demo_world (demo_frame ''q'') ?e) rf"
    "fr_Type rf = FrameDATA \<longrightarrow> (\<exists>req resp. xw_Do demo_world (length (xs_calls ?e)) (outbound req) = DoResponse resp \<and>
      xe_marshal demo_env \<lparr>rp_StatusCode = up_Status resp, rp_Headers = up_Header resp,
            rp_Body = bd_data (up_Body resp)\<rparr> = Some (fr_Payload rf))" by auto
  then show ?thesis
    by (intro exI [of _ rf]) (auto simp: demo_world_def demo_env_def demo_response_def demo_body_def)
qed

lemma largest_limit_empties_bodies_witness:
  "\<exists>rel payload. decide demo_env (demo_policy\<lparr>pl_MaxResponseBytes := max_int64\<rparr>)
       (\<lambda>_. DoResponse demo_response) (demo_frame ''q'') = Relay rel payload \<and> rp_Body rel = ''''"
proof -
  let ?pol = "demo_policy\<lparr>pl_MaxResponseBytes := max_int64\<rparr>"
  let ?rel = "\<lparr>rp_StatusCode = 200, rp_Headers = [], rp_Body = ''''\<rparr>"
  have "decide demo_env ?pol (\<lambda>_. DoResponse demo_response) (demo_frame ''q'') = Relay ?rel ''''"
    by code_simp
  from this largest_limit_empties_bodies [OF this] show ?thesis by auto
qed

lemma refusal_codes_witness:
  "xs_calls (handleRequest demo_env demo_world (demo_frame ''q'')
     (NewHTTPExecutor 3 (demo_cfg\<lparr>Policy := demo_policy\<lparr>pl_AllowedSchemes := [''https'']\<rparr>\<rparr>))) = []"
proof -
  let ?pol = "demo_policy\<lparr>pl_AllowedSchemes := [''https'']\<rparr>"
  let ?e = "NewHTTPExecutor 3 (demo_cfg\<lparr>Policy := ?pol\<rparr>)"
  have pol: "Policy (xs_cfg ?e) = ?pol" "xs_calls ?e = []" by (simp_all add: NewHTTPExecutor_def)
  obtain req where q: "xe_unmarshal demo_env ''q'' = Some req" "rr_URL req = ''http://h/a''"
    by (simp add: demo_env_def)
  have "CheckRequest \<lparr>pe_lower = id, pe_IsPrivateIP = \<lambda>_. False\<rparr> ?pol ''http://h/a'' \<noteq> None" by code_simp
  then have "CheckRequest (xe_policy demo_env) (Policy (xs_cfg ?e)) (rr_URL req) \<noteq> None"
    unfolding pol q(2) by (simp add: demo_env_def)
  then show ?thesis
    using refusal_codes [of demo_env demo_world ?e "demo_frame ''q''"] q(1) pol(2) by (auto simp: demo_frame_def)
qed

lemma sequence_numbers_consecutive_witness:
  "\<exists>e' frs. xs_sends e' = map (\<lambda>c. the (xe_encode demo_env c)) (frs :: frame list) \<and>
     xs_seqNum e' = of_nat (length frs) \<and>
     e' = snd (snd (exit_Run demo_env demo_world (\<lambda>r f. (Some f, r)) [GotMessage ''q''] ((), NewHTTPExecutor 3 demo_cfg)))"
proof -
  obtain res r' e' where run: "exit_Run demo_env demo_world (\<lambda>r f. (Some f, r)) [GotMessage ''q'']
      ((), NewHTTPExecutor 3 demo_cfg) = (res, r', e')" by (metis prod_cases3)
  show ?thesis using sequence_numbers_consecutive [OF demo_no_failures run] run by fastforce
qed

end
