(* ===== verification/Go_Server.thy ===== *)
theory Go_Server
  imports Go_Net
begin

text \<open>
  What the proxy uses of Go's HTTP server: the \<^verbatim>\<open>ResponseWriter\<close>, which commits the status and the
  headers once and checks what is written against them, \<^verbatim>\<open>http.Error\<close>, and the path cleaning of
  \<^verbatim>\<open>ServeMux\<close>. The headers the server adds on its own (\<open>Date\<close> and the like) are left out.
\<close>

section \<open>The response writer\<close>

record response_writer =
  rw_isHead :: bool
  rw_header :: header
  rw_sent :: "(int \<times> header) option"
  rw_written :: int
  rw_body :: string

definition new_writer :: "bool \<Rightarrow> response_writer" where
  "new_writer isHead = \<lparr>rw_isHead = isHead, rw_header = [], rw_sent = None, rw_written = 0, rw_body = ''''\<rparr>"

text \<open>The declared length: a \<open>Content-Length\<close> that is not a number is dropped from the headers.\<close>

definition declared_length :: "header \<Rightarrow> int option" where
  "declared_length h =
     (case Atoi (Header_Get h ''Content-Length'') of
        Some n \<Rightarrow> if n \<ge> 0 then Some n else None
      | None \<Rightarrow> None)"

definition sent_headers :: "header \<Rightarrow> header" where
  "sent_headers h =
     (if Header_Get h ''Content-Length'' \<noteq> '''' \<and> declared_length h = None
      then Header_Del ''Content-Length'' h else h)"

text \<open>
  \<^verbatim>\<open>WriteHeader\<close>: superfluous when the headers are out, a panic (\<open>None\<close>) on a status outside
  100 to 999, and not final on an informational status other than 101.
\<close>

definition WriteHeader :: "int \<Rightarrow> response_writer \<Rightarrow> response_writer option" where
  "WriteHeader code w =
     (if rw_sent w \<noteq> None then Some w
      else if code < 100 \<or> code > 999 then None
      else if 100 \<le> code \<and> code \<le> 199 \<and> code \<noteq> 101 then Some w
      else Some (w\<lparr>rw_sent := Some (code, sent_headers (rw_header w))\<rparr>))"

definition bodyAllowed :: "int \<Rightarrow> bool" where
  "bodyAllowed st \<longleftrightarrow> \<not> (100 \<le> st \<and> st \<le> 199) \<and> st \<noteq> 204 \<and> st \<noteq> 304"

text \<open>\<^verbatim>\<open>Write\<close>: nothing is kept for a status without a body, past the declared length, or for HEAD.\<close>

definition rw_commit :: "response_writer \<Rightarrow> response_writer" where
  "rw_commit w =
     (case rw_sent w of
        None \<Rightarrow> w\<lparr>rw_sent := Some (200, sent_headers (rw_header w))\<rparr>
      | Some x \<Rightarrow> w)"

definition rw_Write :: "string \<Rightarrow> response_writer \<Rightarrow> response_writer" where
  "rw_Write data w0 =
     (let w = rw_commit w0 in
      case rw_sent w of
        None \<Rightarrow> w
      | Some (st, h) \<Rightarrow>
          if data = '''' \<or> \<not> bodyAllowed st then w
          else
            let total = rw_written w + int (length data);
                w = w\<lparr>rw_written := total\<rparr>
            in if (case declared_length h of None \<Rightarrow> False | Some n \<Rightarrow> total > n) then w
               else if rw_isHead w then w
               else w\<lparr>rw_body := rw_body w @ data\<rparr>)"

text \<open>What the client has received when the handler has returned.\<close>

record http_reply =
  hr_Status :: int
  hr_Header :: header
  hr_Body :: string

definition finish :: "response_writer \<Rightarrow> http_reply" where
  "finish w0 =
     (let w = rw_commit w0 in
      case rw_sent w of
        Some (st, h) \<Rightarrow> \<lparr>hr_Status = st, hr_Header = h, hr_Body = rw_body w\<rparr>
      | None \<Rightarrow> \<lparr>hr_Status = 200, hr_Header = [], hr_Body = ''''\<rparr>)"

text \<open>\<^verbatim>\<open>http.Error\<close>\<close>

definition http_Error :: "string \<Rightarrow> int \<Rightarrow> response_writer \<Rightarrow> response_writer option" where
  "http_Error msg code w =
     (let h = Header_Set ''X-Content-Type-Options'' ''nosniff''
                (Header_Set ''Content-Type'' ''text/plain; charset=utf-8''
                  (Header_Del ''Content-Length'' (rw_header w)))
      in map_option (rw_Write (msg @ [CHR 0x0A])) (WriteHeader code (w\<lparr>rw_header := h\<rparr>)))"

section \<open>Path cleaning\<close>

text \<open>\<^verbatim>\<open>path.Clean\<close> of a rooted path: the elements that remain.\<close>

fun clean_segments :: "string list \<Rightarrow> string list \<Rightarrow> string list" where
  "clean_segments acc [] = rev acc"
| "clean_segments acc (s # ss) =
     (if s = '''' \<or> s = ''.'' then clean_segments acc ss
      else if s = ''..'' then clean_segments (drop 1 acc) ss
      else clean_segments (s # acc) ss)"

text \<open>\<^verbatim>\<open>cleanPath\<close> of \<^verbatim>\<open>net/http\<close>: clean, and put the trailing slash back.\<close>

definition cleanPath :: "string \<Rightarrow> string" where
  "cleanPath p =
     (if p = '''' then ''/''
      else
        let q = (if HasPrefix p ''/'' then p else CHR ''/'' # p);
            np = CHR ''/'' # Join (clean_segments [] (Split q (CHR ''/''))) (CHR ''/'')
        in if last q = CHR ''/'' \<and> np \<noteq> ''/'' then np @ ''/'' else np)"

section \<open>Facts\<close>

lemma WriteHeader_fresh:
  assumes "rw_sent w = None" "200 \<le> code" "code \<le> 999"
  shows "WriteHeader code w = Some (w\<lparr>rw_sent := Some (code, sent_headers (rw_header w))\<rparr>)"
  using assms by (simp add: WriteHeader_def)

lemma http_Error_reply:
  assumes "200 \<le> code" "code \<le> 999" "bodyAllowed code"
  obtains w where "http_Error msg code (new_writer False) = Some w"
    "hr_Status (finish w) = code" "hr_Body (finish w) = msg @ [CHR 0x0A]"
proof -
  let ?h = "Header_Set ''X-Content-Type-Options'' ''nosniff''
    (Header_Set ''Content-Type'' ''text/plain; charset=utf-8'' (Header_Del ''Content-Length'' []))"
  have cl: "Header_Get ?h ''Content-Length'' = ''''" by code_simp
  then have "sent_headers ?h = ?h" "declared_length ?h = None"
    by (simp_all add: sent_headers_def declared_length_def Atoi_def)
  then show ?thesis
    using that assms
    by (simp add: http_Error_def WriteHeader_def new_writer_def rw_Write_def rw_commit_def finish_def Let_def)
qed

text \<open>Committed headers and what follows them.\<close>

lemma finish_Write:
  assumes "rw_sent w = Some (st, h)"
  shows "hr_Status (finish (rw_Write data w)) = st" "hr_Header (finish (rw_Write data w)) = h"
  using assms by (auto simp: rw_Write_def rw_commit_def finish_def Let_def)

end
