(* ===== verification/Http_Proxy.thy ===== *)
theory Http_Proxy
  imports Http_Policy Resp_Cache Cache_Rules Observability Go_Server Relay_Wire
begin

text \<open>
  \<^verbatim>\<open>internal/proxy\<close>: the local HTTP proxy. A request passes the policy, is answered from the response
  cache when a fresh entry is there, and otherwise makes a round trip through the relay, whose answer
  may be stored.

  Parameters: the JSON codec, the text of a policy error and \<^verbatim>\<open>http.ParseTime\<close> in \<open>proxy_env\<close>; for
  each request the instants at which the clock is read, the random bytes, and what
  \<^verbatim>\<open>session.SendRequest\<close> of relaykit returns, in \<open>call_world\<close>. Requests are handled one after the
  other here and interleaved in \<open>Proxy_Concurrent\<close>; the cache's mutex makes its operations atomic. Error values are left out of the log records.
\<close>

section \<open>Request identifiers\<close>

definition hex_digit :: "nat \<Rightarrow> char" where
  "hex_digit n = char_of (if n < 10 then 48 + n else 87 + n)"

text \<open>\<^verbatim>\<open>hex.EncodeToString\<close>\<close>

definition hex_encode :: "string \<Rightarrow> string" where
  "hex_encode bs = concat (map (\<lambda>c. [hex_digit (byte c div 16), hex_digit (byte c mod 16)]) bs)"

text \<open>\<^verbatim>\<open>fmt.Sprintf("%016x", n)\<close>: the digits, padded with zeros behind the sign.\<close>

fun hex_digits :: "nat \<Rightarrow> nat \<Rightarrow> string" where
  "hex_digits 0 n = []"
| "hex_digits (Suc k) n = hex_digits k (n div 16) @ [hex_digit (n mod 16)]"

definition hex016 :: "int \<Rightarrow> string" where
  "hex016 n = (if n < 0 then CHR ''-'' # hex_digits (if n > - (16 ^ 15) then 15 else 16) (nat (- n))
               else hex_digits 16 (nat n))"

text \<open>\<open>rnd\<close>: the eight bytes \<^verbatim>\<open>rand.Read\<close> delivers, or \<open>None\<close> when it fails.\<close>

definition newID :: "string option \<Rightarrow> int \<Rightarrow> string" where
  "newID rnd nano = (case rnd of None \<Rightarrow> hex016 nano | Some b \<Rightarrow> hex_encode b)"

section \<open>State\<close>

record proxy_relayRequest =
  pq_Method :: string
  pq_URL :: string
  pq_Headers :: header
  pq_Body :: string

record proxy_relayResponse =
  ps_StatusCode :: int
  ps_Headers :: header
  ps_Body :: string

datatype relay_outcome =
    RelayAnswer string
  | RelayError string int
  | RelayFailed string

record proxy_env =
  ye_policy :: policy_env
  ye_error_text :: "policy_error \<Rightarrow> string"
  ye_ParseTime :: "string \<Rightarrow> int option"
  ye_marshal :: "proxy_relayRequest \<Rightarrow> string option"
  ye_unmarshal :: "string \<Rightarrow> proxy_relayResponse option"

record call_world =
  yw_getNow :: int
  yw_putNow :: int
  yw_random :: "string option"
  yw_nano :: int
  yw_relay :: "frame \<Rightarrow> int \<Rightarrow> relay_outcome"

text \<open>\<open>px_frames\<close>: the frames given to \<^verbatim>\<open>SendRequest\<close> so far, with their timeouts.\<close>

record HTTPProxy =
  px_cfg :: Config
  px_sessionID :: string
  px_maxPending :: "int option"
  px_limiter :: bool
  px_cache :: "cache option"
  px_metrics :: Metrics
  px_log :: Logger
  px_frames :: "(frame \<times> int) list"

definition NewHTTPProxy :: "int \<Rightarrow> Config \<Rightarrow> HTTPProxy" where
  "NewHTTPProxy nano cfg =
     \<lparr>px_cfg = cfg,
      px_sessionID = ''proxy-'' @ Itoa nano,
      px_maxPending =
        (if pc_MaxConcurrentRequests (Proxy cfg) > 0 then Some (pc_MaxConcurrentRequests (Proxy cfg)) else None),
      px_limiter = False,
      px_cache = None,
      px_metrics = NewMetrics,
      px_log = NewLogger (lg_Level (Log cfg)) (lg_Format (Log cfg)),
      px_frames = []\<rparr>"

definition proxy_WithRateLimiter :: "HTTPProxy \<Rightarrow> HTTPProxy" where
  "proxy_WithRateLimiter p = p\<lparr>px_limiter := True\<rparr>"

definition WithCache :: "cache \<Rightarrow> HTTPProxy \<Rightarrow> HTTPProxy" where
  "WithCache c p = p\<lparr>px_cache := Some c\<rparr>"

definition requestTimeout :: "HTTPProxy \<Rightarrow> int" where
  "requestTimeout p =
     (let ms = pc_RequestTimeoutMs (Proxy (px_cfg p)) in
      if ms > 0 then wrap64 (ms * 1000000) else 30 * second_ns)"

definition proxy_log :: "(Logger \<Rightarrow> Logger) \<Rightarrow> HTTPProxy \<Rightarrow> HTTPProxy" where
  "proxy_log f p = p\<lparr>px_log := f (px_log p)\<rparr>"

definition count_ProxyRequests :: "HTTPProxy \<Rightarrow> HTTPProxy" where
  "count_ProxyRequests p =
     p\<lparr>px_metrics := (px_metrics p)\<lparr>me_ProxyRequests := incr (me_ProxyRequests (px_metrics p))\<rparr>\<rparr>"

definition count_ProxyResponses :: "HTTPProxy \<Rightarrow> HTTPProxy" where
  "count_ProxyResponses p =
     p\<lparr>px_metrics := (px_metrics p)\<lparr>me_ProxyResponses := incr (me_ProxyResponses (px_metrics p))\<rparr>\<rparr>"

definition count_ProxyErrors :: "HTTPProxy \<Rightarrow> HTTPProxy" where
  "count_ProxyErrors p =
     p\<lparr>px_metrics := (px_metrics p)\<lparr>me_ProxyErrors := incr (me_ProxyErrors (px_metrics p))\<rparr>\<rparr>"

section \<open>The stages of ServeHTTP\<close>

definition target_url :: "http_request \<Rightarrow> string" where
  "target_url r = (if rq_RequestURI r = '''' then rq_URLString r else rq_RequestURI r)"

definition body_limit :: int where "body_limit = 10 * 1024 * 1024"

text \<open>The request body; \<open>None\<close> is a read error.\<close>

definition read_body :: "http_request \<Rightarrow> string option" where
  "read_body r = (case rq_Body r of None \<Rightarrow> Some '''' | Some b \<Rightarrow> ReadAll_limit body_limit b)"

definition request_options :: "Config \<Rightarrow> RequestOptions" where
  "request_options cfg =
     \<lparr>ro_CacheWithAuthorization = cc_CacheWithAuthorization (Cache cfg),
      ro_CacheWithCookies = cc_CacheWithCookies (Cache cfg)\<rparr>"

definition response_options :: "Config \<Rightarrow> ResponseOptions" where
  "response_options cfg =
     \<lparr>so_MaxEntryBytes = cc_MaxEntryBytes (Cache cfg), so_CachePrivate = cc_CachePrivate (Cache cfg)\<rparr>"

definition cache_key :: "http_request \<Rightarrow> string" where
  "cache_key r = BuildKey (rq_Method r) (target_url r) (rq_Header r)"

text \<open>The lookup: the entry to serve, and the proxy with the cache after \<^verbatim>\<open>Get\<close>.\<close>

definition lookup_cached :: "call_world \<Rightarrow> http_request \<Rightarrow> HTTPProxy \<Rightarrow> Entry option \<times> HTTPProxy" where
  "lookup_cached w r p =
     (case px_cache p of
        None \<Rightarrow> (None, p)
      | Some c \<Rightarrow>
          if IsRequestCacheable r (request_options (px_cfg p)) then
            (case cache_Get (cache_key r) (yw_getNow w) c of
               (found, c') \<Rightarrow> (found, p\<lparr>px_cache := Some c'\<rparr>))
          else (None, p))"

definition write_hit :: "http_request \<Rightarrow> Entry \<Rightarrow> response_writer \<Rightarrow> response_writer option" where
  "write_hit r entry rw =
     (let h = Header_Set ''X-Chunkbridge-Cache'' ''HIT'' (add_all (en_Header entry) (rw_header rw)) in
      case WriteHeader (en_StatusCode entry) (rw\<lparr>rw_header := h\<rparr>) of
        None \<Rightarrow> None
      | Some rw \<Rightarrow>
          Some (if en_Body entry \<noteq> '''' \<and> rq_Method r \<noteq> ''HEAD'' then rw_Write (en_Body entry) rw else rw))"

definition request_frame :: "string \<Rightarrow> string \<Rightarrow> string \<Rightarrow> frame" where
  "request_frame session rid payload =
     \<lparr>fr_Version = 1, fr_Type = FrameDATA, fr_SessionID = session, fr_RequestID = rid,
      fr_SeqNum = 0, fr_Payload = payload, fr_Part = 0\<rparr>"

definition relay_request :: "http_request \<Rightarrow> string \<Rightarrow> proxy_relayRequest" where
  "relay_request r bdy =
     \<lparr>pq_Method = rq_Method r, pq_URL = target_url r, pq_Headers = rq_Header r, pq_Body = bdy\<rparr>"

text \<open>The answer to a failed round trip.\<close>

definition relay_failure :: "relay_outcome \<Rightarrow> string \<times> int" where
  "relay_failure o' =
     (case o' of
        RelayError msg st \<Rightarrow> (msg, st)
      | RelayFailed err \<Rightarrow>
          if err = ''relay: too many concurrent requests'' then (''too many concurrent requests'', 429)
          else (''relay error: '' @ err, 502)
      | RelayAnswer payload \<Rightarrow> ('''', 0))"

definition fresh_entry :: "http_request \<Rightarrow> proxy_relayResponse \<Rightarrow> int \<Rightarrow> int \<Rightarrow> Entry" where
  "fresh_entry r resp now ttl =
     \<lparr>en_Method = rq_Method r, en_URL = target_url r, en_StatusCode = ps_StatusCode resp,
      en_Header = CopyHeader (ps_Headers resp), en_Body = ps_Body resp, en_StoredAt = now,
      en_ExpiresAt = now + ttl, en_ETag = Header_Get (ps_Headers resp) ''ETag'',
      en_LastModified = Header_Get (ps_Headers resp) ''Last-Modified'', en_BodySize = 0\<rparr>"

definition response_ttl :: "proxy_env \<Rightarrow> Config \<Rightarrow> call_world \<Rightarrow> http_request \<Rightarrow> proxy_relayResponse \<Rightarrow> int" where
  "response_ttl env cfg w r resp =
     TTLFor (pe_lower (ye_policy env)) (ye_ParseTime env) (ps_Headers resp) (target_url r)
       (cc_DefaultTTLSeconds (Cache cfg)) (yw_putNow w)"

text \<open>Whether the store path reaches \<^verbatim>\<open>Put\<close>.\<close>

definition storable :: "proxy_env \<Rightarrow> Config \<Rightarrow> call_world \<Rightarrow> http_request \<Rightarrow> proxy_relayResponse \<Rightarrow> bool" where
  "storable env cfg w r resp \<longleftrightarrow>
     IsRequestCacheable r (request_options cfg) \<and>
     IsResponseCacheable (pe_lower (ye_policy env)) (rq_Method r) (ps_StatusCode resp) (ps_Headers resp)
       (int (length (ps_Body resp))) (response_options cfg) \<and>
     response_ttl env cfg w r resp > 0"

definition store_response ::
  "proxy_env \<Rightarrow> call_world \<Rightarrow> http_request \<Rightarrow> proxy_relayResponse \<Rightarrow> HTTPProxy \<Rightarrow> HTTPProxy"
where
  "store_response env w r resp p =
     (case px_cache p of
        None \<Rightarrow> p
      | Some c \<Rightarrow>
          if storable env (px_cfg p) w r resp then
            p\<lparr>px_cache := Some (fst (cache_Put (cache_key r)
                 (fresh_entry r resp (yw_putNow w) (response_ttl env (px_cfg p) w r resp)) c))\<rparr>
          else p)"

definition write_miss :: "bool \<Rightarrow> proxy_relayResponse \<Rightarrow> response_writer \<Rightarrow> response_writer option" where
  "write_miss caching resp rw =
     (let h = add_all (ps_Headers resp) (rw_header rw);
          h = (if caching then Header_Set ''X-Chunkbridge-Cache'' ''MISS'' h else h)
      in case WriteHeader (ps_StatusCode resp) (rw\<lparr>rw_header := h\<rparr>) of
           None \<Rightarrow> None
         | Some rw \<Rightarrow> Some (if ps_Body resp \<noteq> '''' then rw_Write (ps_Body resp) rw else rw))"

section \<open>ServeHTTP\<close>

text \<open>
  The part after the cache lookup: the frame, the round trip, the store path, the response. The
  result is the writer when the handler returns; \<open>None\<close> is a panic in \<^verbatim>\<open>WriteHeader\<close>.
\<close>

definition serve_relay ::
  "proxy_env \<Rightarrow> call_world \<Rightarrow> http_request \<Rightarrow> string \<Rightarrow> response_writer \<Rightarrow> HTTPProxy \<Rightarrow>
   response_writer option \<times> HTTPProxy"
where
  "serve_relay env w r bdy rw p =
     (case ye_marshal env (relay_request r bdy) of
        None \<Rightarrow> (http_Error ''internal error'' 500 rw, p)
      | Some payload \<Rightarrow>
          let fr = request_frame (px_sessionID p) (newID (yw_random w) (yw_nano w)) payload;
              outcome = yw_relay w fr (requestTimeout p);
              p = p\<lparr>px_frames := px_frames p @ [(fr, requestTimeout p)]\<rparr>
          in case outcome of
               RelayAnswer answer \<Rightarrow>
                 (case ye_unmarshal env answer of
                    None \<Rightarrow> (http_Error ''invalid response from exit'' 502 rw, count_ProxyErrors p)
                  | Some resp \<Rightarrow>
                      let p = store_response env w r resp p in
                      (case write_miss (px_cache p \<noteq> None) resp rw of
                         None \<Rightarrow> (None, p)
                       | Some rw \<Rightarrow> (Some rw, count_ProxyResponses p)))
             | failure \<Rightarrow>
                 (case relay_failure failure of
                    (msg, st) \<Rightarrow>
                      (http_Error msg st rw,
                       proxy_log (log_Error ''proxy: relay error'' []) (count_ProxyErrors p))))"

definition ServeHTTP ::
  "proxy_env \<Rightarrow> call_world \<Rightarrow> http_request \<Rightarrow> HTTPProxy \<Rightarrow> http_reply option \<times> HTTPProxy"
where
  "ServeHTTP env w r p0 =
     (let rw = new_writer (rq_Method r = ''HEAD'');
          (out, p') =
            (if rq_Method r = ''CONNECT'' then
               (http_Error ''HTTPS CONNECT tunnelling is not supported by chunkbridge'' 501 rw, p0)
             else
               let p = count_ProxyRequests p0 in
               case read_body r of
                 None \<Rightarrow> (http_Error ''failed to read request body'' 400 rw, p)
               | Some bdy \<Rightarrow>
                   (case CheckRequest (ye_policy env) (Policy (px_cfg p)) (target_url r) of
                      Some err \<Rightarrow>
                        (http_Error (''policy: '' @ ye_error_text env err) 403 rw,
                         proxy_log (log_Warn ''proxy: policy denied'' [''url'', target_url r]) p)
                    | None \<Rightarrow>
                        (case lookup_cached w r p of
                           (Some entry, p) \<Rightarrow>
                             (case write_hit r entry rw of
                                None \<Rightarrow> (None, p)
                              | Some rw \<Rightarrow> (Some rw, count_ProxyResponses p))
                         | (None, p) \<Rightarrow> serve_relay env w r bdy rw p)))
      in (map_option finish out, p'))"

text \<open>
  The handler as the server calls it, through the \<^verbatim>\<open>ServeMux\<close> of \<^verbatim>\<open>NewHTTPProxy\<close>: a request, other
  than CONNECT, whose path is not clean is redirected and never reaches \<open>ServeHTTP\<close>.
\<close>

datatype served = Redirected string | Handled "http_reply option"

definition mux_serve ::
  "proxy_env \<Rightarrow> call_world \<Rightarrow> http_request \<Rightarrow> HTTPProxy \<Rightarrow> served \<times> HTTPProxy"
where
  "mux_serve env w r p =
     (if rq_Method r \<noteq> ''CONNECT'' \<and> cleanPath (rq_EscapedPath r) \<noteq> rq_EscapedPath r
      then (Redirected (cleanPath (rq_EscapedPath r)), p)
      else case ServeHTTP env w r p of (reply, p') \<Rightarrow> (Handled reply, p'))"

section \<open>The shapes of a request\<close>

definition passes :: "proxy_env \<Rightarrow> Config \<Rightarrow> http_request \<Rightarrow> string \<Rightarrow> bool" where
  "passes env cfg r bdy \<longleftrightarrow>
     rq_Method r \<noteq> ''CONNECT'' \<and> read_body r = Some bdy \<and>
     CheckRequest (ye_policy env) (Policy cfg) (target_url r) = None"

definition writer_for :: "http_request \<Rightarrow> response_writer" where
  "writer_for r = new_writer (rq_Method r = ''HEAD'')"

lemma count_keeps [simp]:
  "px_cfg (count_ProxyRequests p) = px_cfg p" "px_cache (count_ProxyRequests p) = px_cache p"
  "px_frames (count_ProxyRequests p) = px_frames p" "px_sessionID (count_ProxyRequests p) = px_sessionID p"
  "px_cfg (count_ProxyResponses p) = px_cfg p" "px_cache (count_ProxyResponses p) = px_cache p"
  "px_frames (count_ProxyResponses p) = px_frames p" "px_sessionID (count_ProxyResponses p) = px_sessionID p"
  "px_cfg (count_ProxyErrors p) = px_cfg p" "px_cache (count_ProxyErrors p) = px_cache p"
  "px_frames (count_ProxyErrors p) = px_frames p" "px_sessionID (count_ProxyErrors p) = px_sessionID p"
  "px_cfg (proxy_log f p) = px_cfg p" "px_cache (proxy_log f p) = px_cache p"
  "px_frames (proxy_log f p) = px_frames p" "px_sessionID (proxy_log f p) = px_sessionID p"
  by (simp_all add: count_ProxyRequests_def count_ProxyResponses_def count_ProxyErrors_def proxy_log_def)

lemma lookup_keeps:
  "px_cfg (snd (lookup_cached w r p)) = px_cfg p" "px_frames (snd (lookup_cached w r p)) = px_frames p"
  "px_sessionID (snd (lookup_cached w r p)) = px_sessionID p"
  by (simp_all add: lookup_cached_def split: option.splits prod.splits)

lemma store_keeps [simp]:
  "px_cfg (store_response env w r resp p) = px_cfg p"
  "px_frames (store_response env w r resp p) = px_frames p"
  "px_sessionID (store_response env w r resp p) = px_sessionID p"
  by (simp_all add: store_response_def split: option.splits)

lemma ServeHTTP_cases:
  obtains
    (refused) out p1 where "ServeHTTP env w r p = (map_option finish out, p1)"
      "\<nexists>bdy. passes env (px_cfg p) r bdy" "px_cfg p1 = px_cfg p" "px_cache p1 = px_cache p"
      "px_frames p1 = px_frames p" "\<exists>msg code. (code = 501 \<or> code = 400 \<or> code = 403) \<and> out = http_Error msg code (writer_for r)"
  | (hit) bdy entry p1 where "passes env (px_cfg p) r bdy"
      "lookup_cached w r (count_ProxyRequests p) = (Some entry, p1)"
      "fst (ServeHTTP env w r p) = map_option finish (write_hit r entry (writer_for r))"
      "snd (ServeHTTP env w r p) = (if write_hit r entry (writer_for r) = None then p1 else count_ProxyResponses p1)"
  | (relay) bdy p1 where "passes env (px_cfg p) r bdy"
      "lookup_cached w r (count_ProxyRequests p) = (None, p1)"
      "ServeHTTP env w r p =
         (case serve_relay env w r bdy (writer_for r) p1 of (out, p') \<Rightarrow> (map_option finish out, p'))"
proof (cases "\<exists>bdy. passes env (px_cfg p) r bdy")
  case False
  then show ?thesis
    by (intro that(1) [of "fst (if rq_Method r = ''CONNECT'' then
          (http_Error ''HTTPS CONNECT tunnelling is not supported by chunkbridge'' 501 (writer_for r), p)
        else case read_body r of
          None \<Rightarrow> (http_Error ''failed to read request body'' 400 (writer_for r), p)
        | Some b \<Rightarrow> (http_Error (''policy: '' @ ye_error_text env
            (the (CheckRequest (ye_policy env) (Policy (px_cfg p)) (target_url r)))) 403 (writer_for r), p))"
        "snd (ServeHTTP env w r p)"])
      (auto simp: ServeHTTP_def passes_def Let_def writer_for_def split: option.splits)
next
  case True
  then obtain bdy where b: "passes env (px_cfg p) r bdy" by blast
  obtain found p1 where l: "lookup_cached w r (count_ProxyRequests p) = (found, p1)" by fastforce
  show ?thesis
  proof (cases found)
    case None
    then show ?thesis using that(3) b l
      by (simp add: ServeHTTP_def passes_def Let_def writer_for_def)
  next
    case (Some entry)
    then show ?thesis using that(2) [OF b, of entry p1] b l
      by (simp add: ServeHTTP_def passes_def Let_def writer_for_def split: option.splits)
  qed
qed

text \<open>The frame of a round trip, and the four ways the round trip can go.\<close>

definition the_frame :: "call_world \<Rightarrow> HTTPProxy \<Rightarrow> string \<Rightarrow> frame" where
  "the_frame w p payload = request_frame (px_sessionID p) (newID (yw_random w) (yw_nano w)) payload"

lemma serve_relay_cases:
  obtains
    (unmarshallable) "ye_marshal env (relay_request r bdy) = None"
      "serve_relay env w r bdy rw p = (http_Error ''internal error'' 500 rw, p)"
  | (failed) payload failure p1 where "ye_marshal env (relay_request r bdy) = Some payload"
      "yw_relay w (the_frame w p payload) (requestTimeout p) = failure" "\<nexists>a. failure = RelayAnswer a"
      "serve_relay env w r bdy rw p =
         (http_Error (fst (relay_failure failure)) (snd (relay_failure failure)) rw, p1)"
      "px_frames p1 = px_frames p @ [(the_frame w p payload, requestTimeout p)]"
      "px_cfg p1 = px_cfg p" "px_cache p1 = px_cache p"
  | (unreadable) payload answer p1 where "ye_marshal env (relay_request r bdy) = Some payload"
      "yw_relay w (the_frame w p payload) (requestTimeout p) = RelayAnswer answer"
      "ye_unmarshal env answer = None"
      "serve_relay env w r bdy rw p = (http_Error ''invalid response from exit'' 502 rw, p1)"
      "px_frames p1 = px_frames p @ [(the_frame w p payload, requestTimeout p)]"
      "px_cfg p1 = px_cfg p" "px_cache p1 = px_cache p"
  | (answered) payload answer resp p1 where "ye_marshal env (relay_request r bdy) = Some payload"
      "yw_relay w (the_frame w p payload) (requestTimeout p) = RelayAnswer answer"
      "ye_unmarshal env answer = Some resp"
      "fst (serve_relay env w r bdy rw p) = write_miss (px_cache p \<noteq> None) resp rw"
      "snd (serve_relay env w r bdy rw p) = p1"
      "px_frames p1 = px_frames p @ [(the_frame w p payload, requestTimeout p)]"
      "px_cfg p1 = px_cfg p" "px_cache p1 = px_cache (store_response env w r resp p)"
proof (cases "ye_marshal env (relay_request r bdy)")
  case None
  then show ?thesis using that(1) by (simp add: serve_relay_def)
next
  case (Some payload)
  let ?o = "yw_relay w (the_frame w p payload) (requestTimeout p)"
  show ?thesis
  proof (cases ?o)
    case (RelayAnswer answer)
    have store: "px_cache (store_response env w r resp (p\<lparr>px_frames := fs\<rparr>)) =
        px_cache (store_response env w r resp p)"
      "(\<exists>y. px_cache (store_response env w r resp p) = Some y) \<longleftrightarrow> (\<exists>y. px_cache p = Some y)" for resp fs
      by (simp_all add: store_response_def split: option.splits)
    show ?thesis
    proof (cases "ye_unmarshal env answer")
      case None
      then show ?thesis using that(3) [OF Some RelayAnswer] Some RelayAnswer
        by (simp add: serve_relay_def Let_def the_frame_def)
    next
      case resp: (Some resp)
      then show ?thesis
        using that(4) [OF Some RelayAnswer resp, of "snd (serve_relay env w r bdy rw p)"] Some RelayAnswer
        by (simp add: serve_relay_def Let_def the_frame_def store split: option.splits)
    qed
  qed (use that(2) [OF Some refl] Some in
      \<open>simp_all add: serve_relay_def Let_def the_frame_def split: prod.splits\<close>)
qed

lemma ServeHTTP_answered:
  assumes "passes env (px_cfg p) r bdy" "lookup_cached w r (count_ProxyRequests p) = (None, p1)"
    and "ye_marshal env (relay_request r bdy) = Some payload"
    and "yw_relay w (the_frame w p1 payload) (requestTimeout p1) = RelayAnswer answer"
    and "ye_unmarshal env answer = Some resp"
  shows "fst (ServeHTTP env w r p) = map_option finish (write_miss (px_cache p1 \<noteq> None) resp (writer_for r))"
    "px_frames (snd (ServeHTTP env w r p)) = px_frames p1 @ [(the_frame w p1 payload, requestTimeout p1)]"
    "px_cfg (snd (ServeHTTP env w r p)) = px_cfg p1"
    "px_cache (snd (ServeHTTP env w r p)) = px_cache (store_response env w r resp p1)"
proof -
  have s: "ServeHTTP env w r p =
      (case serve_relay env w r bdy (writer_for r) p1 of (out, p') \<Rightarrow> (map_option finish out, p'))"
    using assms(1,2) by (simp add: ServeHTTP_def passes_def writer_for_def)
  show "fst (ServeHTTP env w r p) = map_option finish (write_miss (px_cache p1 \<noteq> None) resp (writer_for r))"
    "px_frames (snd (ServeHTTP env w r p)) = px_frames p1 @ [(the_frame w p1 payload, requestTimeout p1)]"
    "px_cfg (snd (ServeHTTP env w r p)) = px_cfg p1"
    "px_cache (snd (ServeHTTP env w r p)) = px_cache (store_response env w r resp p1)"
    by (cases rule: serve_relay_cases [of env r bdy w "writer_for r" p1];
        use s assms(3-5) in \<open>simp add: case_prod_beta\<close>)+
qed

section \<open>What the cache and the relay have seen\<close>

text \<open>
  \<open>resp\<close> is what the relay answered to the request \<open>r0\<close>, in the round trip that one of the frames
  belongs to.
\<close>

definition answered_by ::
  "proxy_env \<Rightarrow> Config \<Rightarrow> (frame \<times> int) list \<Rightarrow> call_world \<Rightarrow> http_request \<Rightarrow> proxy_relayResponse \<Rightarrow> bool"
where
  "answered_by env cfg frs w0 r0 resp \<longleftrightarrow>
     (\<exists>fr t a bdy. (fr, t) \<in> set frs \<and> passes env cfg r0 bdy \<and>
        ye_marshal env (relay_request r0 bdy) = Some (fr_Payload fr) \<and>
        yw_relay w0 fr t = RelayAnswer a \<and> ye_unmarshal env a = Some resp)"

definition stored_from ::
  "proxy_env \<Rightarrow> Config \<Rightarrow> (call_world \<times> http_request) list \<Rightarrow> (frame \<times> int) list \<Rightarrow> string \<Rightarrow> Entry \<Rightarrow> bool"
where
  "stored_from env cfg calls frs k e \<longleftrightarrow>
     (\<exists>w0 r0 resp. (w0, r0) \<in> set calls \<and> k = cache_key r0 \<and> answered_by env cfg frs w0 r0 resp \<and>
        storable env cfg w0 r0 resp \<and>
        e = stored_entry (fresh_entry r0 resp (yw_putNow w0) (response_ttl env cfg w0 r0 resp)))"

definition relayed_frame ::
  "proxy_env \<Rightarrow> Config \<Rightarrow> (call_world \<times> http_request) list \<Rightarrow> frame \<Rightarrow> bool"
where
  "relayed_frame env cfg calls fr \<longleftrightarrow>
     (\<exists>w r bdy. (w, r) \<in> set calls \<and> passes env cfg r bdy \<and> fr_Type fr = FrameDATA \<and>
        ye_marshal env (relay_request r bdy) = Some (fr_Payload fr))"

definition cache_sound ::
  "proxy_env \<Rightarrow> Config \<Rightarrow> (call_world \<times> http_request) list \<Rightarrow> (frame \<times> int) list \<Rightarrow> cache \<Rightarrow> bool"
where
  "cache_sound env cfg calls frs c \<longleftrightarrow>
     cache_ok c \<and> cache_within c \<and> rc.all_stored (stored_from env cfg calls frs) c"

definition proxy_inv ::
  "proxy_env \<Rightarrow> Config \<Rightarrow> cache_config \<Rightarrow> (call_world \<times> http_request) list \<Rightarrow> HTTPProxy \<Rightarrow> bool"
where
  "proxy_inv env cfg ccfg calls p \<longleftrightarrow>
     px_cfg p = cfg \<and>
     (\<forall>c. px_cache p = Some c \<longrightarrow> cache_sound env cfg calls (px_frames p) c \<and> ch_cfg c = ccfg) \<and>
     (\<forall>(fr, t) \<in> set (px_frames p). relayed_frame env cfg calls fr \<and> t = requestTimeout p)"

lemma stored_from_mono:
  "stored_from env cfg calls frs k e \<Longrightarrow> set calls \<subseteq> set calls' \<Longrightarrow> set frs \<subseteq> set frs' \<Longrightarrow>
   stored_from env cfg calls' frs' k e"
  unfolding stored_from_def answered_by_def by blast

lemma cache_sound_mono:
  "cache_sound env cfg calls frs c \<Longrightarrow> set calls \<subseteq> set calls' \<Longrightarrow> set frs \<subseteq> set frs' \<Longrightarrow>
   cache_sound env cfg calls' frs' c"
  unfolding cache_sound_def rc.all_stored_def using stored_from_mono by blast

lemma relayed_frame_mono:
  "relayed_frame env cfg calls fr \<Longrightarrow> set calls \<subseteq> set calls' \<Longrightarrow> relayed_frame env cfg calls' fr"
  unfolding relayed_frame_def by blast

lemma cache_sound_Get:
  "cache_sound env cfg calls frs c \<Longrightarrow> cache_sound env cfg calls frs (snd (cache_Get k now c))"
  by (simp add: cache_sound_def cache_ok_Get cache_within_Get rc.all_stored_get)

lemma cache_key_not_Nil [simp]: "cache_key r \<noteq> ''''"
  by (simp add: cache_key_def)

lemma cache_sound_Put:
  assumes "cache_sound env cfg calls frs c" "stored_from env cfg calls frs (cache_key r) (stored_entry e)"
  shows "cache_sound env cfg calls frs (fst (cache_Put (cache_key r) e c))"
  using assms by (simp add: cache_sound_def cache_ok_Put cache_within_Put rc.all_stored_put)

lemma requestTimeout_cong: "px_cfg p = px_cfg q \<Longrightarrow> requestTimeout p = requestTimeout q"
  by (simp add: requestTimeout_def)

lemma proxy_inv_grow:
  assumes "proxy_inv env cfg ccfg calls p" "set calls \<subseteq> set calls'"
    and "px_cfg q = px_cfg p" "px_frames q = px_frames p" "px_cache q = px_cache p"
  shows "proxy_inv env cfg ccfg calls' q"
  using assms cache_sound_mono [OF _ assms(2)] relayed_frame_mono [OF _ assms(2)] requestTimeout_cong [of q p]
  by (auto simp: proxy_inv_def)

lemma proxy_inv_lookup:
  assumes inv: "proxy_inv env cfg ccfg calls p" and l: "lookup_cached w r p = (found, p1)"
  shows "proxy_inv env cfg ccfg calls p1"
proof (cases "px_cache p1 = px_cache p")
  case True
  then show ?thesis
    using lookup_keeps [of w r p] l by (intro proxy_inv_grow [OF inv subset_refl]) auto
next
  case False
  then obtain c where c: "px_cache p = Some c" "px_cache p1 = Some (snd (cache_Get (cache_key r) (yw_getNow w) c))"
    using l by (auto simp: lookup_cached_def split: option.splits if_splits prod.splits)
  have keeps: "px_cfg p1 = px_cfg p" "px_frames p1 = px_frames p"
    using lookup_keeps [of w r p] l by auto
  show ?thesis
    using inv c keeps requestTimeout_cong [of p1 p] cache_sound_Get
    by (auto simp: proxy_inv_def)
qed

lemma proxy_inv_frame:
  assumes inv: "proxy_inv env cfg ccfg calls p" and fr: "relayed_frame env cfg calls fr"
    and q: "px_cfg q = px_cfg p" "px_frames q = px_frames p @ [(fr, requestTimeout p)]" "px_cache q = px_cache p"
  shows "proxy_inv env cfg ccfg calls q"
proof -
  have "cache_sound env cfg calls (px_frames q) c" if "px_cache q = Some c" for c
    using inv that q cache_sound_mono [of env cfg calls "px_frames p" c calls "px_frames q"]
    by (auto simp: proxy_inv_def)
  then show ?thesis using inv fr q requestTimeout_cong [of q p] by (auto simp: proxy_inv_def)
qed

lemma proxy_inv_store:
  assumes inv: "proxy_inv env cfg ccfg calls p" and call: "(w, r) \<in> set calls"
    and ans: "answered_by env cfg (px_frames p) w r resp"
  shows "proxy_inv env cfg ccfg calls (store_response env w r resp p)"
proof (cases "px_cache p")
  case None
  then show ?thesis using inv by (simp add: store_response_def)
next
  case (Some c)
  let ?e = "fresh_entry r resp (yw_putNow w) (response_ttl env cfg w r resp)"
  have cfg: "px_cfg p = cfg" and snd: "cache_sound env cfg calls (px_frames p) c" "ch_cfg c = ccfg"
    using inv Some by (simp_all add: proxy_inv_def)
  show ?thesis
  proof (cases "storable env cfg w r resp")
    case True
    then have "stored_from env cfg calls (px_frames p) (cache_key r) (stored_entry ?e)"
      using call ans by (auto simp: stored_from_def)
    then have "cache_sound env cfg calls (px_frames p) (fst (cache_Put (cache_key r) ?e c))"
      using snd by (simp add: cache_sound_Put)
    moreover have "ch_cfg (fst (cache_Put (cache_key r) ?e c)) = ccfg"
      using snd by (simp add: cfg_Put cache_sound_def)
    ultimately show ?thesis
      using inv True cfg Some requestTimeout_cong [of "store_response env w r resp p" p]
      by (auto simp: proxy_inv_def store_response_def)
  next
    case False
    then show ?thesis using inv Some cfg by (simp add: store_response_def)
  qed
qed

lemma proxy_inv_ServeHTTP:
  assumes inv: "proxy_inv env cfg ccfg calls p"
  shows "proxy_inv env cfg ccfg (calls @ [(w, r)]) (snd (ServeHTTP env w r p))"
proof -
  let ?calls = "calls @ [(w, r)]"
  have inv': "proxy_inv env cfg ccfg ?calls p" "proxy_inv env cfg ccfg ?calls (count_ProxyRequests p)"
    by (rule proxy_inv_grow [OF inv]; auto)+
  have cfg: "px_cfg p = cfg" using inv by (simp add: proxy_inv_def)
  show ?thesis
  proof (cases rule: ServeHTTP_cases [of env w r p])
    case (refused out p1)
    then show ?thesis by (simp add: proxy_inv_grow [OF inv'(1)])
  next
    case (hit bdy entry p1)
    then have "proxy_inv env cfg ccfg ?calls p1" using proxy_inv_lookup [OF inv'(2)] by blast
    then show ?thesis using hit(4) proxy_inv_grow [OF \<open>proxy_inv env cfg ccfg ?calls p1\<close> subset_refl] by simp
  next
    case (relay bdy p1)
    then have inv1: "proxy_inv env cfg ccfg ?calls p1" using proxy_inv_lookup [OF inv'(2)] by blast
    have cfg1: "px_cfg p1 = cfg" using inv1 by (simp add: proxy_inv_def)
    have rf: "relayed_frame env cfg ?calls (the_frame w p1 payload)"
      if "ye_marshal env (relay_request r bdy) = Some payload" for payload
      using that relay(1) cfg by (auto simp: relayed_frame_def the_frame_def request_frame_def)
    have "proxy_inv env cfg ccfg ?calls (snd (serve_relay env w r bdy (writer_for r) p1))"
    proof (cases rule: serve_relay_cases [of env r bdy w "writer_for r" p1])
      case unmarshallable
      then show ?thesis using inv1 by simp
    next
      case (failed payload failure p2)
      then show ?thesis using proxy_inv_frame [OF inv1 rf] by simp
    next
      case (unreadable payload answer p2)
      then show ?thesis using proxy_inv_frame [OF inv1 rf] by simp
    next
      case (answered payload answer resp p2)
      let ?q = "p1\<lparr>px_frames := px_frames p2\<rparr>"
      have q: "proxy_inv env cfg ccfg ?calls ?q"
        using answered by (intro proxy_inv_frame [OF inv1 rf]) simp_all
      have "answered_by env cfg (px_frames ?q) w r resp"
        unfolding answered_by_def
        using answered relay(1) cfg
        by (intro exI [of _ "the_frame w p1 payload"] exI [of _ "requestTimeout p1"] exI [of _ answer] exI [of _ bdy])
          (simp add: the_frame_def request_frame_def)
      then have st: "proxy_inv env cfg ccfg ?calls (store_response env w r resp ?q)"
        by (intro proxy_inv_store [OF q]) simp_all
      have "px_cache (store_response env w r resp ?q) = px_cache (store_response env w r resp p1)"
        by (simp add: store_response_def split: option.splits)
      then show ?thesis
        using answered by (intro proxy_inv_grow [OF st subset_refl]) simp_all
    qed
    then show ?thesis using relay(3) by (simp add: case_prod_beta)
  qed
qed

section \<open>Runs of the proxy\<close>

definition proxy_state ::
  "proxy_env \<Rightarrow> (call_world \<times> http_request) list \<Rightarrow> HTTPProxy \<Rightarrow> HTTPProxy"
where
  "proxy_state env calls p = fold (\<lambda>(w, r) p. snd (mux_serve env w r p)) calls p"

text \<open>A proxy before its first request, with a new cache or with none.\<close>

definition fresh_proxy :: "Config \<Rightarrow> cache_config \<Rightarrow> HTTPProxy \<Rightarrow> bool" where
  "fresh_proxy cfg ccfg p \<longleftrightarrow>
     px_cfg p = cfg \<and> px_frames p = [] \<and> (px_cache p = None \<or> px_cache p = Some (cache_New ccfg))"

lemma fresh_proxy_New:
  "fresh_proxy cfg ccfg (NewHTTPProxy nano cfg)"
  "fresh_proxy cfg ccfg p \<Longrightarrow> fresh_proxy cfg ccfg (proxy_WithRateLimiter p)"
  "fresh_proxy cfg ccfg p \<Longrightarrow> fresh_proxy cfg ccfg (WithCache (cache_New ccfg) p)"
  by (simp_all add: fresh_proxy_def NewHTTPProxy_def proxy_WithRateLimiter_def WithCache_def)

lemma all_stored_New: "rc.all_stored P (cache_New ccfg)"
  by (simp add: rc.all_stored_def cache_find_def cache_New_def)

lemma proxy_inv_fresh: "fresh_proxy cfg ccfg p \<Longrightarrow> proxy_inv env cfg ccfg [] p"
  using all_stored_New [of _ ccfg] cache_ok_New [of ccfg] cache_within_New [of ccfg]
  by (auto simp: fresh_proxy_def proxy_inv_def cache_sound_def) (simp add: cache_New_def)

lemma proxy_inv_mux:
  assumes "proxy_inv env cfg ccfg calls p"
  shows "proxy_inv env cfg ccfg (calls @ [(w, r)]) (snd (mux_serve env w r p))"
proof (cases "rq_Method r \<noteq> ''CONNECT'' \<and> cleanPath (rq_EscapedPath r) \<noteq> rq_EscapedPath r")
  case True
  have "proxy_inv env cfg ccfg (calls @ [(w, r)]) p" by (rule proxy_inv_grow [OF assms]) auto
  with True show ?thesis by (simp add: mux_serve_def)
next
  case False
  then have "snd (mux_serve env w r p) = snd (ServeHTTP env w r p)"
    by (auto simp: mux_serve_def split: prod.splits)
  then show ?thesis using proxy_inv_ServeHTTP [OF assms] by simp
qed

lemma proxy_inv_run:
  assumes "fresh_proxy cfg ccfg p0" shows "proxy_inv env cfg ccfg calls (proxy_state env calls p0)"
proof (induction calls rule: rev_induct)
  case Nil
  then show ?case using proxy_inv_fresh [OF assms] by (simp add: proxy_state_def)
next
  case (snoc wr calls)
  then show ?case using proxy_inv_mux [OF snoc] by (cases wr) (simp add: proxy_state_def)
qed

text \<open>
  What \<^verbatim>\<open>net/http\<close> guarantees of a request it hands over (no control bytes in the method or the
  target), and \<^verbatim>\<open>encoding/json\<close> of a decoded map (no key twice).
\<close>

definition request_wf :: "http_request \<Rightarrow> bool" where
  "request_wf r \<longleftrightarrow> nul \<notin> set (rq_Method r) \<and> nul \<notin> set (target_url r)"

definition decoder_wf :: "proxy_env \<Rightarrow> bool" where
  "decoder_wf env \<longleftrightarrow> (\<forall>a resp. ye_unmarshal env a = Some resp \<longrightarrow> gomap_ok (ps_Headers resp))"

lemma CopyHeader_id:
  assumes "gomap_ok h" shows "CopyHeader h = h"
proof -
  have upd: "k \<notin> fst ` set d \<Longrightarrow> AList.update k v d = d @ [(k, v)]" for k v and d :: header
    by (induction d) auto
  have "distinct (map fst (d @ h)) \<Longrightarrow> fold (\<lambda>(k, vs). AList.update k vs) h d = d @ h" for d
  proof (induction h arbitrary: d)
    case (Cons p h)
    obtain k vs where p: "p = (k, vs)" by (cases p)
    have "distinct (map fst ((d @ [(k, vs)]) @ h))" "k \<notin> fst ` set d"
      using Cons.prems p by auto
    then show ?case using Cons.IH [of "d @ [(k, vs)]"] p by (simp add: upd)
  qed simp
  from this [of "[]"] show ?thesis using assms by (simp add: CopyHeader_def gomap_ok_def)
qed

lemma hit_origin:
  assumes inv: "proxy_inv env cfg ccfg calls p" and wf: "\<forall>(w, r) \<in> set calls. request_wf r" "request_wf r"
    and dec: "decoder_wf env" and hit: "fst (lookup_cached w r p) = Some entry"
  obtains w0 r0 resp where "(w0, r0) \<in> set calls" "answered_by env cfg (px_frames p) w0 r0 resp"
    "storable env cfg w0 r0 resp" "IsRequestCacheable r (request_options cfg)"
    "rq_Method r0 = rq_Method r" "target_url r0 = target_url r"
    "Header_Get (rq_Header r0) ''Accept-Encoding'' = Header_Get (rq_Header r) ''Accept-Encoding''"
    "en_StatusCode entry = ps_StatusCode resp" "en_Header entry = ps_Headers resp"
    "en_Body entry = ps_Body resp"
    "yw_getNow w \<le> yw_putNow w0 + response_ttl env cfg w0 r0 resp"
proof -
  obtain c where c: "px_cache p = Some c" "IsRequestCacheable r (request_options cfg)"
    "fst (cache_Get (cache_key r) (yw_getNow w) c) = Some entry"
    using hit inv by (auto simp: lookup_cached_def proxy_inv_def split: option.splits if_splits prod.splits)
  then have sound: "cache_sound env cfg calls (px_frames p) c" using inv by (simp add: proxy_inv_def)
  then have "stored_from env cfg calls (px_frames p) (cache_key r) entry \<and> entry_fresh (yw_getNow w) entry"
    using c(3) by (intro rc.hit_satisfies) (simp_all add: cache_sound_def)
  then obtain w0 r0 resp where o: "(w0, r0) \<in> set calls" "cache_key r = cache_key r0"
    "answered_by env cfg (px_frames p) w0 r0 resp" "storable env cfg w0 r0 resp"
    "entry = stored_entry (fresh_entry r0 resp (yw_putNow w0) (response_ttl env cfg w0 r0 resp))"
    "entry_fresh (yw_getNow w) entry"
    by (auto simp: stored_from_def)
  have "request_wf r0" using wf(1) o(1) by auto
  then have "rq_Method r0 = rq_Method r \<and> target_url r0 = target_url r \<and>
      Header_Get (rq_Header r0) ''Accept-Encoding'' = Header_Get (rq_Header r) ''Accept-Encoding''"
    using BuildKey_inj [of "rq_Method r0" "target_url r0" "rq_Method r" "target_url r" "rq_Header r0" "rq_Header r"]
      wf(2) o(2) by (simp add: request_wf_def cache_key_def)
  moreover have "gomap_ok (ps_Headers resp)"
    using dec o(3) by (auto simp: decoder_wf_def answered_by_def)
  ultimately show ?thesis
    using o c(2) by (intro that [OF o(1,3,4) c(2)])
      (auto simp: stored_entry_def fresh_entry_def CopyHeader_id entry_fresh_def)
qed

lemma relayed_frame_request:
  assumes "relayed_frame env cfg calls fr"
  shows "fr_Type fr = FrameDATA \<and> (\<exists>w r bdy. (w, r) \<in> set calls \<and> rq_Method r \<noteq> ''CONNECT'' \<and>
     CheckRequest (ye_policy env) (Policy cfg) (target_url r) = None \<and>
     ye_marshal env (relay_request r bdy) = Some (fr_Payload fr) \<and>
     bdy = (case rq_Body r of None \<Rightarrow> '''' | Some b \<Rightarrow> take (10 * 1024 * 1024) (bd_data b)))"
proof -
  have lim: "nat body_limit = 10 * 1024 * 1024" by (simp add: body_limit_def)
  have body: "bdy = (case rq_Body r of None \<Rightarrow> '''' | Some b \<Rightarrow> take (10 * 1024 * 1024) (bd_data b))"
    if "read_body r = Some bdy" for r bdy
    using that lim by (auto simp: read_body_def ReadAll_limit_def body_limit_def split: option.splits if_splits)
  show ?thesis using assms unfolding relayed_frame_def passes_def using body by blast
qed

section \<open>Properties\<close>

text \<open>
  nothing is relayed unchecked. After any requests, every frame the proxy has given to the relay
  is a data frame with the configured timeout that carries one of those requests: not CONNECT, its
  URL allowed by the policy, its body the request's body cut at 10 MiB without an error.
\<close>

theorem relayed_requests_policed:
  assumes "fresh_proxy cfg ccfg p0" "(fr, t) \<in> set (px_frames (proxy_state env calls p0))"
  shows "fr_Type fr = FrameDATA \<and> t = requestTimeout p0 \<and>
    (\<exists>w r bdy. (w, r) \<in> set calls \<and> rq_Method r \<noteq> ''CONNECT'' \<and>
       CheckRequest (ye_policy env) (Policy cfg) (target_url r) = None \<and>
       ye_marshal env (relay_request r bdy) = Some (fr_Payload fr) \<and>
       bdy = (case rq_Body r of None \<Rightarrow> '''' | Some b \<Rightarrow> take (10 * 1024 * 1024) (bd_data b)))"
proof -
  let ?p = "proxy_state env calls p0"
  have inv: "proxy_inv env cfg ccfg calls ?p" by (rule proxy_inv_run [OF assms(1)])
  have "px_cfg ?p = px_cfg p0" using inv assms(1) by (simp add: proxy_inv_def fresh_proxy_def)
  then have t: "requestTimeout ?p = requestTimeout p0" by (rule requestTimeout_cong)
  have "relayed_frame env cfg calls fr" "t = requestTimeout ?p"
    using inv assms(2) by (auto simp: proxy_inv_def)
  then show ?thesis using relayed_frame_request t by simp
qed

text \<open>
  C9: a cache hit repeats what the relay answered. Whenever a lookup hits, some earlier request with
  the same method, URL and \<open>Accept-Encoding\<close> was relayed, the answer it got was one that may be stored,
  the entry holds exactly the status, headers and body of that answer, and the answer's time
  to live has not passed. The current request, too, is one that may use the cache, and the cache is
  within its limits.
\<close>

theorem cache_hit_is_relayed_response:
  assumes "fresh_proxy cfg ccfg p0" "\<forall>(w, r) \<in> set calls. request_wf r" "request_wf r" "decoder_wf env"
    and "fst (lookup_cached w r (proxy_state env calls p0)) = Some entry"
  shows "IsRequestCacheable r (request_options cfg) \<and>
    (\<exists>w0 r0 resp. (w0, r0) \<in> set calls \<and>
       answered_by env cfg (px_frames (proxy_state env calls p0)) w0 r0 resp \<and>
       storable env cfg w0 r0 resp \<and> rq_Method r0 = rq_Method r \<and> target_url r0 = target_url r \<and>
       Header_Get (rq_Header r0) ''Accept-Encoding'' = Header_Get (rq_Header r) ''Accept-Encoding'' \<and>
       en_StatusCode entry = ps_StatusCode resp \<and> en_Header entry = ps_Headers resp \<and>
       en_Body entry = ps_Body resp \<and>
       yw_getNow w \<le> yw_putNow w0 + response_ttl env cfg w0 r0 resp) \<and>
    (\<forall>c. px_cache (proxy_state env calls p0) = Some c \<longrightarrow> cache_within c \<and> ch_cfg c = ccfg)"
proof -
  have inv: "proxy_inv env cfg ccfg calls (proxy_state env calls p0)" by (rule proxy_inv_run [OF assms(1)])
  then have "\<forall>c. px_cache (proxy_state env calls p0) = Some c \<longrightarrow> cache_within c \<and> ch_cfg c = ccfg"
    by (simp add: proxy_inv_def cache_sound_def)
  then show ?thesis by (rule_tac hit_origin [OF inv assms(2-5)]) blast
qed

section \<open>A concrete proxy\<close>

definition demo_answer :: proxy_relayResponse where
  "demo_answer =
     \<lparr>ps_StatusCode = 200, ps_Headers = [(''Cache-Control'', [''max-age=60''])], ps_Body = ''hi''\<rparr>"

definition demo_proxy_env :: proxy_env where
  "demo_proxy_env =
     \<lparr>ye_policy = \<lparr>pe_lower = id, pe_IsPrivateIP = \<lambda>_. False\<rparr>, ye_error_text = \<lambda>_. ''denied'',
      ye_ParseTime = \<lambda>_. None, ye_marshal = \<lambda>q. Some (pq_URL q),
      ye_unmarshal = \<lambda>a. if a = ''ok'' then Some demo_answer else None\<rparr>"

definition demo_call :: "relay_outcome \<Rightarrow> int \<Rightarrow> call_world" where
  "demo_call outcome now =
     \<lparr>yw_getNow = now, yw_putNow = now, yw_random = None, yw_nano = 0,
      yw_relay = \<lambda>f t. outcome\<rparr>"

definition demo_request :: "string \<Rightarrow> http_request" where
  "demo_request m =
     \<lparr>rq_Method = m, rq_RequestURI = ''http://h/a'', rq_URLString = ''http://h/a'',
      rq_EscapedPath = ''/a'', rq_Header = [], rq_Body = None\<rparr>"

definition demo_proxy :: HTTPProxy where
  "demo_proxy = WithCache (cache_New sample_config) (NewHTTPProxy 7 DefaultClientConfig)"

definition demo_calls :: "(call_world \<times> http_request) list" where
  "demo_calls = [(demo_call (RelayAnswer ''ok'') 0, demo_request ''GET'')]"

lemma demo_fresh: "fresh_proxy DefaultClientConfig sample_config demo_proxy"
  unfolding demo_proxy_def by (intro fresh_proxy_New)

lemma demo_checks:
  "CheckRequest (ye_policy demo_proxy_env) (Policy DefaultClientConfig) ''http://h/a'' = None"
  "storable demo_proxy_env DefaultClientConfig (demo_call o' t) (demo_request ''GET'') demo_answer"
  "response_ttl demo_proxy_env DefaultClientConfig (demo_call o' t) (demo_request ''GET'') demo_answer =
     60 * second_ns"
  "cleanPath ''/a'' = ''/a''"
proof -
  let ?h = "ps_Headers demo_answer"
  show "CheckRequest (ye_policy demo_proxy_env) (Policy DefaultClientConfig) ''http://h/a'' = None"
    "cleanPath ''/a'' = ''/a''" by code_simp+
  have m: "first_max_age id (splitComma (Header_Get ?h ''Cache-Control'')) = Some 60" by code_simp
  have s: "seconds 60 = 60 * second_ns" by code_simp
  show ttl: "response_ttl demo_proxy_env DefaultClientConfig (demo_call o' t) (demo_request ''GET'') demo_answer =
     60 * second_ns"
    using m s by (simp add: response_ttl_def TTLFor_def demo_proxy_env_def)
  have "IsRequestCacheable (demo_request ''GET'') (request_options DefaultClientConfig)" by code_simp
  moreover have "IsResponseCacheable id ''GET'' 200 ?h 2 (response_options DefaultClientConfig)" by code_simp
  ultimately show "storable demo_proxy_env DefaultClientConfig (demo_call o' t) (demo_request ''GET'') demo_answer"
    using ttl by (simp add: storable_def demo_proxy_env_def demo_answer_def demo_request_def second_ns_def)
qed

lemma demo_passes: "passes demo_proxy_env DefaultClientConfig (demo_request ''GET'') ''''"
  using demo_checks(1)
  by (simp add: passes_def demo_request_def target_url_def read_body_def)

definition demo_entry :: Entry where
  "demo_entry = fresh_entry (demo_request ''GET'') demo_answer 0 (60 * second_ns)"

lemma demo_run:
  "map (\<lambda>(f, t). (fr_Payload f, t)) (px_frames (proxy_state demo_proxy_env demo_calls demo_proxy))
     = [(''http://h/a'', 30 * second_ns)]"
  "px_cache (proxy_state demo_proxy_env demo_calls demo_proxy) =
     Some (fst (cache_Put (cache_key (demo_request ''GET'')) demo_entry (cache_New sample_config)))"
  "px_cfg (proxy_state demo_proxy_env demo_calls demo_proxy) = DefaultClientConfig"
proof -
  let ?w = "demo_call (RelayAnswer ''ok'') 0" and ?r = "demo_request ''GET''" and ?k = "cache_key (demo_request ''GET'')"
  let ?p1 = "count_ProxyRequests demo_proxy"
  have p: "px_cfg demo_proxy = DefaultClientConfig" "px_cache demo_proxy = Some (cache_New sample_config)"
    "px_frames demo_proxy = []"
    by (simp_all add: demo_proxy_def WithCache_def NewHTTPProxy_def)
  have "fst (cache_Get ?k 0 (cache_New sample_config)) = None" "snd (cache_Get ?k 0 (cache_New sample_config)) = cache_New sample_config"
    by (simp_all add: cache_Get_def cache_New_def)
  then have "lookup_cached ?w ?r ?p1 = (None, ?p1)"
    using p(2) by (simp add: lookup_cached_def demo_call_def case_prod_beta)
  note a = ServeHTTP_answered [of demo_proxy_env demo_proxy ?r "''''" ?w ?p1 "''http://h/a''" "''ok''" demo_answer,
      OF _ this, unfolded p, OF demo_passes]
  have m: "ye_marshal demo_proxy_env (relay_request ?r '''') = Some ''http://h/a''"
    "yw_relay ?w f t = RelayAnswer ''ok''" "ye_unmarshal demo_proxy_env ''ok'' = Some demo_answer" for f t
    by (simp_all add: demo_proxy_env_def relay_request_def demo_request_def target_url_def demo_call_def)
  have t: "requestTimeout ?p1 = 30 * second_ns"
    using p(1) by (simp add: requestTimeout_def DefaultClientConfig_def wrap64_def second_ns_def)
  have "px_cache (store_response demo_proxy_env ?w ?r demo_answer ?p1) =
      Some (fst (cache_Put ?k demo_entry (cache_New sample_config)))"
    using p demo_checks(2,3) by (simp add: store_response_def demo_entry_def demo_call_def)
  note f = this
  have st: "proxy_state demo_proxy_env demo_calls demo_proxy = snd (ServeHTTP demo_proxy_env ?w ?r demo_proxy)"
    using demo_checks(4)
    by (simp add: proxy_state_def demo_calls_def mux_serve_def demo_request_def case_prod_beta)
  show "map (\<lambda>(f, t). (fr_Payload f, t)) (px_frames (proxy_state demo_proxy_env demo_calls demo_proxy))
     = [(''http://h/a'', 30 * second_ns)]"
    "px_cache (proxy_state demo_proxy_env demo_calls demo_proxy) =
     Some (fst (cache_Put ?k demo_entry (cache_New sample_config)))"
    "px_cfg (proxy_state demo_proxy_env demo_calls demo_proxy) = DefaultClientConfig"
    using a(2-4) [OF m] p t f unfolding st by (simp_all add: the_frame_def request_frame_def)
qed

lemma demo_decoder: "decoder_wf demo_proxy_env"
  by (auto simp: decoder_wf_def demo_proxy_env_def demo_answer_def gomap_ok_def)

lemma demo_wf: "request_wf (demo_request m) \<longleftrightarrow> nul \<notin> set m" "\<forall>(w, r) \<in> set demo_calls. request_wf r"
proof -
  have "nul \<notin> set ''http://h/a''" "nul \<notin> set ''GET''" by code_simp+
  then show "request_wf (demo_request m) \<longleftrightarrow> nul \<notin> set m" "\<forall>(w, r) \<in> set demo_calls. request_wf r"
    by (simp_all add: request_wf_def demo_request_def target_url_def demo_calls_def)
qed

lemma demo_hit:
  "fst (lookup_cached (demo_call o' 5) (demo_request ''GET'')
     (proxy_state demo_proxy_env demo_calls demo_proxy)) = Some (stored_entry demo_entry)"
proof -
  let ?c = "fst (cache_Put (cache_key (demo_request ''GET'')) demo_entry (cache_New sample_config))"
  have "\<not> put_oversize demo_entry (cache_New sample_config)"
    by (simp add: put_oversize_def demo_entry_def fresh_entry_def demo_answer_def cache_New_def sample_config_def)
  then have "cache_find ?c (cache_key (demo_request ''GET'')) = Some (stored_entry demo_entry)"
    using cache_find_Put_same [OF cache_ok_New] by blast
  moreover have "entry_fresh 5 (stored_entry demo_entry)"
    by (simp add: entry_fresh_def stored_entry_def demo_entry_def fresh_entry_def second_ns_def)
  ultimately have "fst (cache_Get (cache_key (demo_request ''GET'')) 5 ?c) = Some (stored_entry demo_entry)"
    by (simp add: cache_Get_found)
  moreover have "IsRequestCacheable (demo_request ''GET'') (request_options DefaultClientConfig)" by code_simp
  ultimately show ?thesis
    using demo_run(2,3) by (simp add: lookup_cached_def case_prod_beta demo_call_def)
qed

lemma relayed_requests_policed_witness:
  "\<exists>fr t. (fr, t) \<in> set (px_frames (proxy_state demo_proxy_env demo_calls demo_proxy)) \<and>
     fr_Type fr = FrameDATA \<and> t = requestTimeout demo_proxy"
proof -
  obtain fr t where "(fr, t) \<in> set (px_frames (proxy_state demo_proxy_env demo_calls demo_proxy))"
    using demo_run(1) by (cases "px_frames (proxy_state demo_proxy_env demo_calls demo_proxy)") auto
  then show ?thesis using relayed_requests_policed [OF demo_fresh] by blast
qed

lemma cache_hit_is_relayed_response_witness:
  "\<exists>resp. en_Body (stored_entry demo_entry) = ps_Body resp \<and>
     answered_by demo_proxy_env DefaultClientConfig
       (px_frames (proxy_state demo_proxy_env demo_calls demo_proxy))
       (demo_call (RelayAnswer ''ok'') 0) (demo_request ''GET'') resp"
proof -
  have "nul \<notin> set ''GET''" by code_simp
  then have "request_wf (demo_request ''GET'')" by (simp add: demo_wf(1))
  note c = cache_hit_is_relayed_response [OF demo_fresh demo_wf(2) this demo_decoder demo_hit]
  have "\<exists>w0 r0 resp. (w0, r0) \<in> set demo_calls \<and>
       answered_by demo_proxy_env DefaultClientConfig
         (px_frames (proxy_state demo_proxy_env demo_calls demo_proxy)) w0 r0 resp \<and>
       en_Body (stored_entry demo_entry) = ps_Body resp"
    using c by blast
  then show ?thesis by (auto simp: demo_calls_def)
qed

end
