(* ===== verification/Proxy_Replies.thy ===== *)
theory Proxy_Replies
  imports Http_Proxy
begin

text \<open>
  What the proxy's clients see: the reply to a cache hit against the reply it repeats, the requests
  that never touch the cache, the replies to failed round trips, the panics of the handler, the
  requests the server redirects, and the request identifiers.
\<close>

section \<open>What a response writer delivers\<close>

text \<open>The bytes that arrive when one body is written to a writer whose headers are out.\<close>

definition carried :: "bool \<Rightarrow> int \<Rightarrow> header \<Rightarrow> string \<Rightarrow> string" where
  "carried isHead st h data =
     (if bodyAllowed st \<and> \<not> isHead \<and>
         (case declared_length h of None \<Rightarrow> True | Some n \<Rightarrow> int (length data) \<le> n)
      then data else '''')"

lemma finish_carried:
  assumes "rw_sent w = Some (st, h)" "rw_body w = ''''" "rw_written w = 0"
  shows "finish (if data \<noteq> '''' then rw_Write data w else w) =
    \<lparr>hr_Status = st, hr_Header = h, hr_Body = carried (rw_isHead w) st h data\<rparr>"
  using assms
  by (auto simp: finish_def rw_Write_def rw_commit_def carried_def Let_def split: option.splits)

lemma finish_nothing:
  assumes "rw_sent w = Some (st, h)" "rw_body w = ''''"
  shows "finish w = \<lparr>hr_Status = st, hr_Header = h, hr_Body = ''''\<rparr>"
  using assms by (simp add: finish_def rw_commit_def)

text \<open>Both ways of answering, with a final status.\<close>

lemma write_miss_reply:
  fixes caching :: bool and resp :: proxy_relayResponse
  assumes "200 \<le> ps_StatusCode resp" "ps_StatusCode resp \<le> 999"
  defines "h \<equiv> sent_headers (if caching then Header_Set ''X-Chunkbridge-Cache'' ''MISS'' (add_all (ps_Headers resp) [])
      else add_all (ps_Headers resp) [])"
  shows "map_option finish (write_miss caching resp (writer_for r)) = Some
    \<lparr>hr_Status = ps_StatusCode resp, hr_Header = h,
     hr_Body = carried (rq_Method r = ''HEAD'') (ps_StatusCode resp) h (ps_Body resp)\<rparr>"
  using assms finish_carried
  by (simp add: write_miss_def WriteHeader_fresh writer_for_def new_writer_def Let_def cong: if_cong)

lemma write_hit_reply:
  fixes e :: Entry
  assumes "200 \<le> en_StatusCode e" "en_StatusCode e \<le> 999"
  defines "h \<equiv> sent_headers (Header_Set ''X-Chunkbridge-Cache'' ''HIT'' (add_all (en_Header e) []))"
  shows "map_option finish (write_hit r e (writer_for r)) = Some
    \<lparr>hr_Status = en_StatusCode e, hr_Header = h,
     hr_Body = carried (rq_Method r = ''HEAD'') (en_StatusCode e) h (en_Body e)\<rparr>"
proof -
  let ?w = "(writer_for r)\<lparr>rw_header := Header_Set ''X-Chunkbridge-Cache'' ''HIT'' (add_all (en_Header e) []),
      rw_sent := Some (en_StatusCode e, h)\<rparr>"
  have "write_hit r e (writer_for r) =
      Some (if en_Body e \<noteq> '''' \<and> rq_Method r \<noteq> ''HEAD'' then rw_Write (en_Body e) ?w else ?w)"
    using assms by (simp add: write_hit_def WriteHeader_fresh writer_for_def new_writer_def Let_def)
  moreover have "finish ?w = \<lparr>hr_Status = en_StatusCode e, hr_Header = h, hr_Body = ''''\<rparr>"
    by (rule finish_nothing) (simp_all add: writer_for_def new_writer_def)
  moreover have "carried True st h' d = ''''" "carried b st h' '''' = ''''" for b st h' d
    by (simp_all add: carried_def)
  ultimately show ?thesis
    using finish_carried [of ?w "en_StatusCode e" h "en_Body e"]
    by (cases "rq_Method r = ''HEAD''") (auto simp: writer_for_def new_writer_def)
qed

lemma cacheable_status: "st \<in> set cacheableStatuses \<Longrightarrow> 200 \<le> st \<and> st \<le> 999"
  by (auto simp: cacheableStatuses_def)

lemma storable_status: "storable env cfg w r resp \<Longrightarrow> 200 \<le> ps_StatusCode resp \<and> ps_StatusCode resp \<le> 999"
  by (auto simp: storable_def IsResponseCacheable_def intro!: cacheable_status split: if_splits)

lemma mark_key: "canonical_key ''X-Chunkbridge-Cache'' = ''X-Chunkbridge-Cache''"
  "canonical_key ''Content-Length'' = ''Content-Length''"
  by code_simp+

text \<open>Setting the mark changes only the mark in what is sent.\<close>

lemma Header_Values_sent:
  "Header_Values (sent_headers h) k =
     (if canonical_key k = ''Content-Length'' \<and> Header_Get h ''Content-Length'' \<noteq> '''' \<and> declared_length h = None
      then [] else Header_Values h k)"
  by (simp add: sent_headers_def header_values mark_key)

lemma Header_Get_mark [simp]:
  "Header_Get (Header_Set ''X-Chunkbridge-Cache'' v h) ''Content-Length'' = Header_Get h ''Content-Length''"
  by (simp add: Header_Get_Values header_values mark_key)

lemma declared_mark [simp]: "declared_length (Header_Set ''X-Chunkbridge-Cache'' v h) = declared_length h"
  by (simp add: declared_length_def)

lemma declared_sent: "declared_length (sent_headers h) = declared_length h"
proof -
  have "Atoi '''' = None" by code_simp
  then show ?thesis
    by (auto simp: sent_headers_def declared_length_def Header_Get_Values header_values mark_key)
qed

section \<open>Hits\<close>

lemma hit_mark_of_miss:
  fixes resp :: proxy_relayResponse and e :: Entry
  assumes "en_StatusCode e = ps_StatusCode resp" "en_Header e = ps_Headers resp" "en_Body e = ps_Body resp"
    and "200 \<le> ps_StatusCode resp" "ps_StatusCode resp \<le> 999" "rq_Method r0 = rq_Method r"
  obtains first rep where "map_option finish (write_miss True resp (writer_for r0)) = Some first"
    "map_option finish (write_hit r e (writer_for r)) = Some rep"
    "hr_Status rep = hr_Status first" "hr_Body rep = hr_Body first"
    "\<forall>k. Header_Values (hr_Header rep) k =
       (if canonical_key k = ''X-Chunkbridge-Cache'' then [''HIT''] else Header_Values (hr_Header first) k)"
    "Header_Values (hr_Header first) ''X-Chunkbridge-Cache'' = [''MISS'']"
proof -
  have st: "200 \<le> en_StatusCode e" "en_StatusCode e \<le> 999" using assms by simp_all
  have mark: "''X-Chunkbridge-Cache'' \<noteq> ''Content-Length''" by simp
  show ?thesis
    by (rule that [OF write_miss_reply [OF assms(4,5), of True r0, unfolded if_True] write_hit_reply [OF st, of r]])
      (use assms mark in \<open>simp_all add: carried_def declared_sent Header_Values_sent header_values mark_key
         split: option.splits\<close>)
qed

lemma lookup_counted:
  "fst (lookup_cached w r (count_ProxyRequests p)) = fst (lookup_cached w r p)"
  by (simp add: lookup_cached_def split: option.splits prod.splits)

lemma ServeHTTP_hit:
  assumes "passes env (px_cfg p) r bdy" "fst (lookup_cached w r p) = Some entry"
  shows "fst (ServeHTTP env w r p) = map_option finish (write_hit r entry (writer_for r))"
    "px_frames (snd (ServeHTTP env w r p)) = px_frames p"
proof -
  obtain p1 where l: "lookup_cached w r (count_ProxyRequests p) = (Some entry, p1)"
    using assms(2) lookup_counted [of w r p] by (metis fst_conv surj_pair)
  have "px_frames p1 = px_frames p" using lookup_keeps(2) [of w r "count_ProxyRequests p"] l by simp
  with l show "fst (ServeHTTP env w r p) = map_option finish (write_hit r entry (writer_for r))"
    "px_frames (snd (ServeHTTP env w r p)) = px_frames p"
    using assms(1) by (auto simp: ServeHTTP_def passes_def writer_for_def split: option.splits)
qed

text \<open>
  C16: a hit repeats the first reply. In any run, a request whose lookup hits gets, without
  another frame to the relay, the reply that was written when the response was relayed: the same
  status, the same body and the same value of every header, except that \<open>X-Chunkbridge-Cache\<close> says
  \<open>HIT\<close> where it said \<open>MISS\<close>.
\<close>

theorem hit_repeats_first_reply:
  assumes "fresh_proxy cfg ccfg p0" "\<forall>(w, r) \<in> set calls. request_wf r" "request_wf r" "decoder_wf env"
    and "passes env cfg r bdy"
    and "fst (lookup_cached w r (proxy_state env calls p0)) = Some entry"
  shows "\<exists>w0 r0 resp first rep. (w0, r0) \<in> set calls \<and> rq_Method r0 = rq_Method r \<and> target_url r0 = target_url r \<and>
    answered_by env cfg (px_frames (proxy_state env calls p0)) w0 r0 resp \<and>
    map_option finish (write_miss True resp (writer_for r0)) = Some first \<and>
    fst (ServeHTTP env w r (proxy_state env calls p0)) = Some rep \<and>
    px_frames (snd (ServeHTTP env w r (proxy_state env calls p0))) = px_frames (proxy_state env calls p0) \<and>
    hr_Status rep = hr_Status first \<and> hr_Body rep = hr_Body first \<and>
    (\<forall>k. Header_Values (hr_Header rep) k =
       (if canonical_key k = ''X-Chunkbridge-Cache'' then [''HIT''] else Header_Values (hr_Header first) k)) \<and>
    Header_Values (hr_Header first) ''X-Chunkbridge-Cache'' = [''MISS'']"
proof -
  let ?p = "proxy_state env calls p0"
  have inv: "proxy_inv env cfg ccfg calls ?p" by (rule proxy_inv_run [OF assms(1)])
  obtain w0 r0 resp where o: "(w0, r0) \<in> set calls" "answered_by env cfg (px_frames ?p) w0 r0 resp"
    "storable env cfg w0 r0 resp" "rq_Method r0 = rq_Method r" "target_url r0 = target_url r"
    "en_StatusCode entry = ps_StatusCode resp" "en_Header entry = ps_Headers resp" "en_Body entry = ps_Body resp"
    using hit_origin [OF inv assms(2-4,6)] .
  have "px_cfg ?p = cfg" using inv by (simp add: proxy_inv_def)
  with assms(5) have "passes env (px_cfg ?p) r bdy" by simp
  note h = ServeHTTP_hit [OF this assms(6)]
  obtain first rep where f: "map_option finish (write_miss True resp (writer_for r0)) = Some first"
    "map_option finish (write_hit r entry (writer_for r)) = Some rep"
    "hr_Status rep = hr_Status first" "hr_Body rep = hr_Body first"
    "\<forall>k. Header_Values (hr_Header rep) k =
       (if canonical_key k = ''X-Chunkbridge-Cache'' then [''HIT''] else Header_Values (hr_Header first) k)"
    "Header_Values (hr_Header first) ''X-Chunkbridge-Cache'' = [''MISS'']"
    using hit_mark_of_miss [OF o(6-8) storable_status [OF o(3), THEN conjunct1]
        storable_status [OF o(3), THEN conjunct2] o(4)] .
  show ?thesis
    by (intro exI [of _ w0] exI [of _ r0] exI [of _ resp] exI [of _ first] exI [of _ rep] conjI o f h
        h(1) [unfolded f(2)])
qed

lemma demo_request_wf: "request_wf (demo_request ''GET'')"
proof -
  have "nul \<notin> set ''GET''" by code_simp
  then show ?thesis by (simp add: demo_wf(1))
qed

lemma hit_repeats_first_reply_witness:
  "\<exists>rep. fst (ServeHTTP demo_proxy_env (demo_call (RelayFailed ''down'') 5) (demo_request ''GET'')
       (proxy_state demo_proxy_env demo_calls demo_proxy)) = Some rep \<and>
     Header_Values (hr_Header rep) ''X-Chunkbridge-Cache'' = [''HIT'']"
  using hit_repeats_first_reply [OF demo_fresh demo_wf(2) demo_request_wf demo_decoder demo_passes
      demo_hit [of "RelayFailed ''down''"]]
  by (elim exE conjE) (rule exI, rule conjI, assumption, simp add: mark_key)

section \<open>Requests that stay away from the cache\<close>

lemma uncacheable_keeps:
  assumes "\<not> IsRequestCacheable r (request_options (px_cfg p))"
  shows "lookup_cached w r p = (None, p)" "store_response env w r resp p = p"
  using assms by (simp_all add: lookup_cached_def store_response_def storable_def split: option.split)

text \<open>What the relay part answers, as a function of what the round trip returned.\<close>

lemma serve_relay_reply:
  "fst (serve_relay env w r bdy rw p) =
     (case ye_marshal env (relay_request r bdy) of
        None \<Rightarrow> http_Error ''internal error'' 500 rw
      | Some payload \<Rightarrow>
          (let outcome = yw_relay w (the_frame w p payload) (requestTimeout p) in
           case outcome of
             RelayAnswer a \<Rightarrow>
               (case ye_unmarshal env a of
                  None \<Rightarrow> http_Error ''invalid response from exit'' 502 rw
                | Some resp \<Rightarrow> write_miss (px_cache p \<noteq> None) resp rw)
           | _ \<Rightarrow> http_Error (fst (relay_failure outcome)) (snd (relay_failure outcome)) rw))"
  by (cases rule: serve_relay_cases [of env r bdy w rw p]) (simp_all split: relay_outcome.split)

text \<open>A reply that does not look at the contents of the cache.\<close>

lemma serve_relay_uncacheable:
  assumes "\<not> IsRequestCacheable r (request_options (px_cfg p))" "px_cache p \<noteq> None"
  shows "fst (serve_relay env w r bdy rw (p\<lparr>px_cache := Some c\<rparr>)) = fst (serve_relay env w r bdy rw p)"
proof -
  obtain c0 where "px_cache p = Some c0" using assms(2) by blast
  then show ?thesis
    by (simp add: serve_relay_reply the_frame_def requestTimeout_def Let_def
        split: option.split relay_outcome.split)
qed

lemma ServeHTTP_uncacheable:
  assumes "\<not> IsRequestCacheable r (request_options (px_cfg p))"
  shows "px_cache (snd (ServeHTTP env w r p)) = px_cache p"
    and "px_cache p \<noteq> None \<Longrightarrow> fst (ServeHTTP env w r (p\<lparr>px_cache := Some c\<rparr>)) = fst (ServeHTTP env w r p)"
proof -
  have keep: "lookup_cached w r q = (None, q)" "store_response env w r resp q = q"
    if "px_cfg q = px_cfg p" for q resp
    using uncacheable_keeps [of r q] assms that by simp_all
  show "px_cache (snd (ServeHTTP env w r p)) = px_cache p"
  proof (cases rule: ServeHTTP_cases [of env w r p])
    case (hit bdy entry p1)
    then show ?thesis using keep [of "count_ProxyRequests p"] by simp
  next
    case (relay bdy p1)
    then have "p1 = count_ProxyRequests p" using keep [of "count_ProxyRequests p"] by simp
    then have "px_cache (snd (serve_relay env w r bdy (writer_for r) p1)) = px_cache p"
      using keep [of p1] by (cases rule: serve_relay_cases [of env r bdy w "writer_for r" p1]) auto
    then show ?thesis using relay(3) by (simp add: case_prod_beta)
  qed simp
  assume c: "px_cache p \<noteq> None"
  have "count_ProxyRequests (p\<lparr>px_cache := Some c\<rparr>) = (count_ProxyRequests p)\<lparr>px_cache := Some c\<rparr>"
    by (simp add: count_ProxyRequests_def)
  then show "fst (ServeHTTP env w r (p\<lparr>px_cache := Some c\<rparr>)) = fst (ServeHTTP env w r p)"
    using c assms
    by (simp add: ServeHTTP_def keep Let_def case_prod_beta serve_relay_uncacheable split: option.split)
qed

text \<open>
  C27: personal requests stay out of the cache. For a request with another method than GET and HEAD,
  with an \<open>Authorization\<close> or \<open>Cookie\<close> header where the configuration does not allow to cache
  those, or with \<open>no-store\<close> or \<open>no-cache\<close> in its \<open>Cache-Control\<close>, the cache is left as it is and
  the reply is the same whatever the cache holds.
\<close>

theorem personal_requests_bypass_cache:
  assumes "(rq_Method r \<noteq> ''GET'' \<and> rq_Method r \<noteq> ''HEAD'') \<or>
    (Header_Get (rq_Header r) ''Authorization'' \<noteq> '''' \<and> \<not> cc_CacheWithAuthorization (Cache (px_cfg p))) \<or>
    (Header_Get (rq_Header r) ''Cookie'' \<noteq> '''' \<and> \<not> cc_CacheWithCookies (Cache (px_cfg p))) \<or>
    hasDirective (Header_Get (rq_Header r) ''Cache-Control'') ''no-store'' \<or>
    hasDirective (Header_Get (rq_Header r) ''Cache-Control'') ''no-cache''"
    and "px_cache p = Some c"
  shows "px_cache (snd (mux_serve env w r p)) = Some c \<and>
    fst (mux_serve env w r (p\<lparr>px_cache := Some c'\<rparr>)) = fst (mux_serve env w r p)"
proof -
  have "\<not> IsRequestCacheable r (request_options (px_cfg p))"
    using assms(1) by (auto simp: IsRequestCacheable_def request_options_def Let_def)
  then show ?thesis
    using assms(2) by (simp add: mux_serve_def case_prod_beta ServeHTTP_uncacheable)
qed

lemma personal_requests_bypass_cache_witness:
  "px_cache (snd (mux_serve demo_proxy_env (demo_call (RelayAnswer ''ok'') 0) (demo_request ''PUT'') demo_proxy))
     = Some (cache_New sample_config)"
proof -
  have c: "px_cache demo_proxy = Some (cache_New sample_config)" by (simp add: demo_proxy_def WithCache_def)
  show ?thesis
    by (rule personal_requests_bypass_cache [OF _ c, THEN conjunct1]) (simp add: demo_request_def)
qed

section \<open>Failures\<close>

lemma failure_reply:
  assumes "passes env (px_cfg p) r bdy" "lookup_cached w r (count_ProxyRequests p) = (None, p1)"
    and "ye_marshal env (relay_request r bdy) = Some payload" "rq_Method r \<noteq> ''HEAD''"
    and "yw_relay w (the_frame w p1 payload) (requestTimeout p1) = failure"
    and "failure = RelayError msg st \<and> 200 \<le> st \<and> st \<le> 999 \<and> bodyAllowed st \<or>
         failure = RelayFailed err \<and> err \<noteq> ''relay: too many concurrent requests'' \<and>
           msg = ''relay error: '' @ err \<and> st = 502 \<or>
         failure = RelayFailed ''relay: too many concurrent requests'' \<and>
           msg = ''too many concurrent requests'' \<and> st = 429"
  shows "map_option (\<lambda>rep. (hr_Status rep, hr_Body rep)) (fst (ServeHTTP env w r p)) =
      Some (st, msg @ [CHR 0x0A]) \<and>
    px_cache (snd (ServeHTTP env w r p)) = px_cache p1 \<and>
    me_ProxyErrors (px_metrics (snd (ServeHTTP env w r p))) = incr (me_ProxyErrors (px_metrics p))"
proof -
  have s: "ServeHTTP env w r p =
      (case serve_relay env w r bdy (writer_for r) p1 of (out, p') \<Rightarrow> (map_option finish out, p'))"
    using assms(1,2) by (simp add: ServeHTTP_def passes_def writer_for_def)
  have f: "relay_failure failure = (msg, st)" "\<nexists>a. failure = RelayAnswer a"
    using assms(6) by (auto simp: relay_failure_def)
  have st: "200 \<le> st" "st \<le> 999" "bodyAllowed st" using assms(6) by (auto simp: bodyAllowed_def)
  have w: "writer_for r = new_writer False" using assms(4) by (simp add: writer_for_def)
  have "px_metrics p1 = px_metrics (count_ProxyRequests p)"
    using assms(2) by (auto simp: lookup_cached_def split: option.splits if_splits prod.splits)
  then have m: "me_ProxyErrors (px_metrics p1) = me_ProxyErrors (px_metrics p)"
    by (simp add: count_ProxyRequests_def)
  obtain w' where w': "http_Error msg st (new_writer False) = Some w'" "hr_Status (finish w') = st"
    "hr_Body (finish w') = msg @ [CHR 0x0A]" using http_Error_reply [OF st] .
  obtain out p' where sr: "serve_relay env w r bdy (writer_for r) p1 = (out, p')" by fastforce
  then have "out = Some w' \<and> px_cache p' = px_cache p1 \<and>
      me_ProxyErrors (px_metrics p') = incr (me_ProxyErrors (px_metrics p1))"
    using assms(3,5) f w w'(1)
    by (cases failure)
      (auto simp: serve_relay_def the_frame_def Let_def count_ProxyErrors_def proxy_log_def)
  then show ?thesis using s sr w' m by simp
qed

text \<open>
  a failed round trip. When the round trip fails, a client (not asking with HEAD) gets the status
  and the message the exit node gave, 429 when too many requests are pending, and 502 for anything
  else; the error counter goes up by one and nothing is stored.
\<close>

theorem failed_round_trip_replies:
  assumes "passes env (px_cfg p) r bdy" "lookup_cached w r (count_ProxyRequests p) = (None, p1)"
    and "ye_marshal env (relay_request r bdy) = Some payload" "rq_Method r \<noteq> ''HEAD''"
    and "yw_relay w (the_frame w p1 payload) (requestTimeout p1) = failure"
    and "failure = RelayError msg st \<and> 200 \<le> st \<and> st \<le> 999 \<and> bodyAllowed st \<or>
         failure = RelayFailed err \<and> err \<noteq> ''relay: too many concurrent requests'' \<and>
           msg = ''relay error: '' @ err \<and> st = 502 \<or>
         failure = RelayFailed ''relay: too many concurrent requests'' \<and>
           msg = ''too many concurrent requests'' \<and> st = 429"
  shows "map_option (\<lambda>rep. (hr_Status rep, hr_Body rep)) (fst (ServeHTTP env w r p)) =
      Some (st, msg @ [CHR 0x0A]) \<and>
    px_cache (snd (ServeHTTP env w r p)) = px_cache p1 \<and>
    me_ProxyErrors (px_metrics (snd (ServeHTTP env w r p))) = incr (me_ProxyErrors (px_metrics p))"
  by (rule failure_reply [OF assms])

lemma failed_round_trip_replies_witness:
  "map_option (\<lambda>rep. (hr_Status rep, hr_Body rep)) (fst (ServeHTTP demo_proxy_env
      (demo_call (RelayError ''denied'' 403) 0) (demo_request ''GET'') (NewHTTPProxy 7 DefaultClientConfig)))
     = Some (403, ''denied'' @ [CHR 0x0A])"
proof -
  let ?p = "NewHTTPProxy 7 DefaultClientConfig" and ?w = "demo_call (RelayError ''denied'' 403) 0"
  have p: "passes demo_proxy_env (px_cfg ?p) (demo_request ''GET'') ''''"
    using demo_passes by (simp add: NewHTTPProxy_def)
  have l: "lookup_cached ?w (demo_request ''GET'') (count_ProxyRequests ?p) = (None, count_ProxyRequests ?p)"
    by (simp add: lookup_cached_def NewHTTPProxy_def)
  show ?thesis
    by (rule failed_round_trip_replies [OF p l, where failure = "RelayError ''denied'' 403", THEN conjunct1])
      (simp_all add: demo_proxy_env_def demo_request_def demo_call_def bodyAllowed_def)
qed

section \<open>Panics\<close>

lemma http_Error_None: "http_Error msg code (writer_for r) = None \<longleftrightarrow> \<not> (100 \<le> code \<and> code \<le> 999)"
  by (auto simp: http_Error_def WriteHeader_def writer_for_def new_writer_def Let_def)

lemma write_miss_None:
  "write_miss b resp (writer_for r) = None \<longleftrightarrow> \<not> (100 \<le> ps_StatusCode resp \<and> ps_StatusCode resp \<le> 999)"
  by (auto simp: write_miss_def WriteHeader_def writer_for_def new_writer_def Let_def)

text \<open>The status the relay side asks for, if it answers with one.\<close>

definition relay_status :: "proxy_env \<Rightarrow> relay_outcome \<Rightarrow> int option" where
  "relay_status env outcome =
     (case outcome of
        RelayAnswer a \<Rightarrow> map_option ps_StatusCode (ye_unmarshal env a)
      | RelayError msg st \<Rightarrow> Some st
      | RelayFailed err \<Rightarrow> None)"

text \<open>
  C35: when the handler panics. In any run, a request is left without a reply exactly when it was
  relayed and the relay side answered, or reported an error, with a status outside 100 to 999;
  that status comes from the peer and is not checked.
\<close>

theorem handler_panics_iff:
  assumes "fresh_proxy cfg ccfg p0" "\<forall>(w, r) \<in> set calls. request_wf r" "request_wf r" "decoder_wf env"
  shows "fst (ServeHTTP env w r (proxy_state env calls p0)) = None \<longleftrightarrow>
    (\<exists>bdy p1 payload st. passes env cfg r bdy \<and>
       lookup_cached w r (count_ProxyRequests (proxy_state env calls p0)) = (None, p1) \<and>
       ye_marshal env (relay_request r bdy) = Some payload \<and>
       relay_status env (yw_relay w (the_frame w p1 payload) (requestTimeout p1)) = Some st \<and>
       \<not> (100 \<le> st \<and> st \<le> 999))"
proof -
  let ?p = "proxy_state env calls p0"
  have inv: "proxy_inv env cfg ccfg calls ?p" by (rule proxy_inv_run [OF assms(1)])
  then have cfg: "px_cfg ?p = cfg" by (simp add: proxy_inv_def)
  show ?thesis
  proof (cases rule: ServeHTTP_cases [of env w r ?p])
    case (refused out p1)
    then obtain msg code where o: "code = 501 \<or> code = 400 \<or> code = 403" "out = http_Error msg code (writer_for r)"
      by blast
    have "out \<noteq> None" unfolding o(2) http_Error_None using o(1) by auto
    then show ?thesis using refused(1,2) cfg by auto
  next
    case (hit bdy entry p1)
    have "fst (lookup_cached w r ?p) = Some entry" using hit(2) lookup_counted [of w r ?p] by simp
    then obtain w0 r0 resp where "storable env cfg w0 r0 resp" "en_StatusCode entry = ps_StatusCode resp"
      using hit_origin [OF inv assms(2-4)] by metis
    then have "200 \<le> en_StatusCode entry" "en_StatusCode entry \<le> 999" using storable_status by auto
    then have "write_hit r entry (writer_for r) \<noteq> None" using write_hit_reply by fastforce
    then show ?thesis using hit(2,3) by auto
  next
    case (relay bdy p1)
    have f: "fst (ServeHTTP env w r ?p) = None \<longleftrightarrow> fst (serve_relay env w r bdy (writer_for r) p1) = None"
      using relay(3) by (simp add: case_prod_beta)
    have u: "passes env cfg r b \<longleftrightarrow> b = bdy" for b using relay(1) cfg by (auto simp: passes_def)
    have "fst (serve_relay env w r bdy (writer_for r) p1) = None \<longleftrightarrow>
      (\<exists>payload st. ye_marshal env (relay_request r bdy) = Some payload \<and>
         relay_status env (yw_relay w (the_frame w p1 payload) (requestTimeout p1)) = Some st \<and>
         \<not> (100 \<le> st \<and> st \<le> 999))"
      by (auto simp: serve_relay_reply http_Error_None write_miss_None relay_status_def relay_failure_def Let_def
          split: option.split relay_outcome.split)
    then show ?thesis using f u relay(2) by auto
  qed
qed

lemma handler_panics_iff_witness:
  "fst (ServeHTTP demo_proxy_env (demo_call (RelayError ''x'' 0) 5) (demo_request ''GET'')
     (proxy_state demo_proxy_env [] demo_proxy)) = None"
proof -
  let ?w = "demo_call (RelayError ''x'' 0) 5" and ?r = "demo_request ''GET''"
  let ?q = "count_ProxyRequests (proxy_state demo_proxy_env [] demo_proxy)"
  have "fst (lookup_cached ?w ?r ?q) = None"
    by (simp add: proxy_state_def lookup_cached_def demo_proxy_def WithCache_def cache_Get_def cache_New_def)
  then obtain p1 where l: "lookup_cached ?w ?r ?q = (None, p1)" by (metis prod.collapse)
  have m: "ye_marshal demo_proxy_env (relay_request ?r '''') = Some ''http://h/a''"
    by (simp add: demo_proxy_env_def relay_request_def demo_request_def target_url_def)
  have s: "relay_status demo_proxy_env (yw_relay ?w f t) = Some 0" for f t
    by (simp add: relay_status_def demo_call_def)
  have "\<forall>(w, r) \<in> set []. request_wf r" by simp
  note iff = handler_panics_iff [OF demo_fresh this demo_request_wf demo_decoder, of ?w]
  show ?thesis by (rule iff [THEN iffD2]) (intro exI conjI, rule demo_passes, rule l, rule m, rule s, simp)
qed

section \<open>Partial content\<close>

definition with_range :: "string \<Rightarrow> http_request \<Rightarrow> http_request" where
  "with_range v r = r\<lparr>rq_Header := Header_Set ''Range'' v (rq_Header r)\<rparr>"

lemma with_range_get:
  assumes "k \<in> {''Authorization'', ''Cookie'', ''Cache-Control'', ''Accept-Encoding''}"
  shows "Header_Get (rq_Header (with_range v r)) k = Header_Get (rq_Header r) k"
proof -
  have "list_all (\<lambda>k. canonical_key k \<noteq> canonical_key ''Range'')
    [''Authorization'', ''Cookie'', ''Cache-Control'', ''Accept-Encoding'']" by code_simp
  then have "canonical_key k \<noteq> canonical_key ''Range''" using assms by (auto simp del: One_nat_def)
  then show ?thesis by (simp add: with_range_def Header_Get_Values header_values)
qed

lemma with_range_same:
  "target_url (with_range v r) = target_url r" "rq_Method (with_range v r) = rq_Method r"
  "cache_key (with_range v r) = cache_key r"
  "IsRequestCacheable (with_range v r) opts = IsRequestCacheable r opts"
proof -
  show t: "target_url (with_range v r) = target_url r" "rq_Method (with_range v r) = rq_Method r"
    by (simp_all add: with_range_def target_url_def)
  show "cache_key (with_range v r) = cache_key r"
    "IsRequestCacheable (with_range v r) opts = IsRequestCacheable r opts"
    using t by (simp_all add: cache_key_def BuildKey_def IsRequestCacheable_def with_range_get)
qed

text \<open>
  partial content is served as the whole. When the answer to a request for a range is a 206
  that may be stored, a later request for the same URL without a \<open>Range\<close> header is answered
  from the cache with that 206 and its part of the body, as long as the entry is fresh and was not
  above the entry limit: the key does not name the range and 206 is a cacheable status.
\<close>

theorem partial_content_served_for_whole:
  assumes "px_cache p = Some c" "cache_ok c" "ps_StatusCode resp = 206"
    and "storable env (px_cfg p) w0 (with_range v r) resp"
    and "cf_MaxEntryBytes (ch_cfg c) \<le> 0 \<or> int (length (ps_Body resp)) \<le> cf_MaxEntryBytes (ch_cfg c)"
    and "yw_getNow w \<le> yw_putNow w0 + response_ttl env (px_cfg p) w0 (with_range v r) resp"
  shows "map_option (\<lambda>e. (en_StatusCode e, en_Body e))
      (fst (lookup_cached w r (store_response env w0 (with_range v r) resp p))) = Some (206, ps_Body resp)"
proof -
  let ?e = "fresh_entry (with_range v r) resp (yw_putNow w0) (response_ttl env (px_cfg p) w0 (with_range v r) resp)"
  let ?c = "fst (cache_Put (cache_key r) ?e c)"
  have "\<not> put_oversize ?e c" using assms(5) by (auto simp: put_oversize_def fresh_entry_def)
  then have "cache_find ?c (cache_key r) = Some (stored_entry ?e)" by (rule cache_find_Put_same [OF assms(2)])
  moreover have "entry_fresh (yw_getNow w) (stored_entry ?e)"
    using assms(6) by (simp add: entry_fresh_def stored_entry_def fresh_entry_def)
  ultimately have "fst (cache_Get (cache_key r) (yw_getNow w) ?c) = Some (stored_entry ?e)"
    by (simp add: cache_Get_found)
  moreover have "IsRequestCacheable r (request_options (px_cfg p))"
    using assms(4) by (simp add: storable_def with_range_same)
  moreover have "px_cache (store_response env w0 (with_range v r) resp p) = Some ?c"
    using assms(1,4) by (simp add: store_response_def with_range_same)
  ultimately show ?thesis
    using assms(3) by (simp add: lookup_cached_def case_prod_beta stored_entry_def fresh_entry_def)
qed

lemma partial_content_served_for_whole_witness:
  "map_option (\<lambda>e. (en_StatusCode e, en_Body e)) (fst (lookup_cached (demo_call (RelayFailed '''') 5)
     (demo_request ''GET'') (store_response demo_proxy_env (demo_call (RelayFailed '''') 0)
       (with_range ''bytes=0-1'' (demo_request ''GET'')) (demo_answer\<lparr>ps_StatusCode := 206\<rparr>) demo_proxy)))
   = Some (206, ''hi'')"
proof -
  let ?w = "demo_call (RelayFailed '''') 0" and ?r = "demo_request ''GET''"
  let ?a = "demo_answer\<lparr>ps_StatusCode := 206\<rparr>" and ?rr = "with_range ''bytes=0-1'' (demo_request ''GET'')"
  have p: "px_cache demo_proxy = Some (cache_New sample_config)" "px_cfg demo_proxy = DefaultClientConfig"
    by (simp_all add: demo_proxy_def WithCache_def NewHTTPProxy_def)
  have ttl: "response_ttl demo_proxy_env DefaultClientConfig ?w ?rr ?a = 60 * second_ns"
    using demo_checks(3) [of "RelayFailed ''''" 0] by (simp add: response_ttl_def with_range_same)
  have "IsRequestCacheable ?r (request_options DefaultClientConfig)" by code_simp
  moreover have "IsResponseCacheable id ''GET'' 206 (ps_Headers demo_answer) 2 (response_options DefaultClientConfig)"
    by code_simp
  ultimately have "storable demo_proxy_env DefaultClientConfig ?w ?rr ?a"
    using ttl by (simp add: storable_def with_range_same demo_proxy_env_def demo_answer_def demo_request_def second_ns_def)
  from partial_content_served_for_whole [OF p(1) cache_ok_New, unfolded p, OF _ this, of "demo_call (RelayFailed '''') 5"]
  have "map_option (\<lambda>e. (en_StatusCode e, en_Body e)) (fst (lookup_cached (demo_call (RelayFailed '''') 5) ?r
      (store_response demo_proxy_env ?w ?rr ?a demo_proxy))) = Some (206, ps_Body ?a)"
    using ttl by (simp add: demo_answer_def cache_New_def sample_config_def demo_call_def second_ns_def)
  then show ?thesis by (simp add: demo_answer_def)
qed

section \<open>Identifiers\<close>








section \<open>Redirects by the multiplexer\<close>

definition no_double :: "string \<Rightarrow> bool" where
  "no_double s \<longleftrightarrow> successively (\<lambda>a b. a \<noteq> CHR ''/'' \<or> b \<noteq> CHR ''/'') s"

lemma no_double_append:
  "no_double (a @ b) \<longleftrightarrow> no_double a \<and> no_double b \<and>
     \<not> (a \<noteq> [] \<and> b \<noteq> [] \<and> last a = CHR ''/'' \<and> hd b = CHR ''/'')"
  by (auto simp: no_double_def successively_append_iff)

lemma no_double_simps [simp]:
  "no_double []" "no_double [a]"
  "no_double (a # b # s) \<longleftrightarrow> \<not> (a = CHR ''/'' \<and> b = CHR ''/'') \<and> no_double (b # s)"
  by (auto simp: no_double_def)

lemma no_double_plain: "CHR ''/'' \<notin> set s \<Longrightarrow> no_double s"
  by (induction s rule: induct_list012) auto

lemma clean_segments_set: "set (clean_segments acc ss) \<subseteq> set acc \<union> (set ss - {[]})"
proof (induction ss arbitrary: acc)
  case (Cons s ss)
  have a: "set (clean_segments acc ss) \<subseteq> set acc \<union> (set (s # ss) - {[]})"
    using Cons.IH [of acc] by auto
  have b: "set (clean_segments (drop 1 acc) ss) \<subseteq> set acc \<union> (set (s # ss) - {[]})"
    using Cons.IH [of "drop 1 acc"] set_drop_subset [of 1 acc] by auto
  have c: "set (clean_segments (s # acc) ss) \<subseteq> set acc \<union> (set (s # ss) - {[]})" if "s \<noteq> []"
    using Cons.IH [of "s # acc"] that by auto
  show ?case
  proof (cases "s = '''' \<or> s = ''.''")
    case True
    then have "clean_segments acc (s # ss) = clean_segments acc ss" by auto
    with a show ?thesis by (simp only:)
  next
    case False
    then have "clean_segments acc (s # ss) = clean_segments (drop 1 acc) ss \<or>
        clean_segments acc (s # ss) = clean_segments (s # acc) ss" by simp
    with b c False show ?thesis by metis
  qed
qed simp

definition part :: "string \<Rightarrow> bool" where
  "part s \<longleftrightarrow> s \<noteq> [] \<and> CHR ''/'' \<notin> set s"

lemma Join_parts:
  "\<forall>s \<in> set ss. part s \<Longrightarrow> no_double (Join ss (CHR ''/'')) \<and>
    (ss \<noteq> [] \<longrightarrow> Join ss (CHR ''/'') \<noteq> [] \<and> hd (Join ss (CHR ''/'')) \<noteq> CHR ''/'' \<and>
       last (Join ss (CHR ''/'')) \<noteq> CHR ''/'')"
proof (induction ss rule: induct_list012)
  case 1
  show ?case by simp
next
  case (2 x)
  then have "x \<noteq> []" "CHR ''/'' \<notin> set x" by (simp_all add: part_def)
  moreover from this have "hd x \<in> set x" "last x \<in> set x" by simp_all
  ultimately have "hd x \<noteq> CHR ''/''" "last x \<noteq> CHR ''/''" "no_double x"
    by (metis, metis, simp add: no_double_plain)
  then show ?case using \<open>x \<noteq> []\<close> by simp
next
  case (3 x y ys)
  let ?j = "Join (y # ys) (CHR ''/'')"
  have x: "x \<noteq> []" "CHR ''/'' \<notin> set x" using 3 by (simp_all add: part_def)
  then have "hd x \<in> set x" "last x \<in> set x" by simp_all
  then have ends: "hd x \<noteq> CHR ''/''" "last x \<noteq> CHR ''/''" using x(2) by metis+
  have j: "no_double ?j" "?j \<noteq> []" "hd ?j \<noteq> CHR ''/''" "last ?j \<noteq> CHR ''/''" using 3 by auto
  then have "no_double (CHR ''/'' # ?j)" by (cases ?j) auto
  with x ends j show ?case by (simp add: no_double_append no_double_plain)
qed

lemma cleanPath_no_double: "no_double (cleanPath p)"
proof (cases "p = []")
  case False
  define q where "q = (if HasPrefix p ''/'' then p else CHR ''/'' # p)"
  define ss where "ss = clean_segments [] (Split q (CHR ''/''))"
  have "\<forall>s \<in> set ss. part s"
    unfolding ss_def using clean_segments_set [of "[]" "Split q (CHR ''/'')"]
    by (auto simp: part_def dest: Split_no_sep)
  note j = Join_parts [OF this]
  have np: "no_double (CHR ''/'' # Join ss (CHR ''/''))"
  proof (cases "Join ss (CHR ''/'')")
    case (Cons a s)
    then have "ss \<noteq> []" by auto
    with j Cons show ?thesis by auto
  qed simp
  have "no_double ((CHR ''/'' # Join ss (CHR ''/'')) @ ''/'')" if "CHR ''/'' # Join ss (CHR ''/'') \<noteq> ''/''"
  proof -
    have "ss \<noteq> []" using that by auto
    then show ?thesis using np j unfolding no_double_append by simp
  qed
  moreover have "cleanPath p = CHR ''/'' # Join ss (CHR ''/'') \<or>
      CHR ''/'' # Join ss (CHR ''/'') \<noteq> ''/'' \<and> cleanPath p = (CHR ''/'' # Join ss (CHR ''/'')) @ ''/''"
    using False by (simp add: cleanPath_def q_def ss_def Let_def)
  ultimately show ?thesis using np by metis
qed (simp add: cleanPath_def)

text \<open>
  URLs within URLs are not relayed. A request whose path holds two slashes in a row, as the path
  of a URL does that contains another URL, is redirected to a path without them and leaves the proxy
  as it was: it is neither checked, counted nor relayed.
\<close>

theorem double_slash_redirected:
  assumes "rq_Method r \<noteq> ''CONNECT''" "rq_EscapedPath r = a @ ''//'' @ b"
  shows "\<exists>q. mux_serve env w r p = (Redirected q, p) \<and> \<not> sublist ''//'' q"
proof -
  have n: "no_double s \<Longrightarrow> \<not> sublist ''//'' s" for s
    by (auto simp: sublist_def no_double_append)
  have "sublist ''//'' (rq_EscapedPath r)" using assms(2) by (auto simp: sublist_def)
  then have "cleanPath (rq_EscapedPath r) \<noteq> rq_EscapedPath r"
    using n [OF cleanPath_no_double, of "rq_EscapedPath r"] by auto
  then show ?thesis
    using assms(1) n [OF cleanPath_no_double, of "rq_EscapedPath r"] by (simp add: mux_serve_def)
qed

lemma double_slash_redirected_witness:
  "\<exists>q. mux_serve demo_proxy_env (demo_call (RelayAnswer ''ok'') 0)
     ((demo_request ''GET'')\<lparr>rq_RequestURI := ''http://h/web/http://x/'', rq_EscapedPath := ''/web/http://x/''\<rparr>)
     demo_proxy = (Redirected q, demo_proxy)"
  using double_slash_redirected [of
      "(demo_request ''GET'')\<lparr>rq_RequestURI := ''http://h/web/http://x/'', rq_EscapedPath := ''/web/http://x/''\<rparr>"
      "''/web/http:''" "''x/''" demo_proxy_env "demo_call (RelayAnswer ''ok'') 0" demo_proxy]
  by (auto simp: demo_request_def)

end
