(* ===== verification/Startup.thy ===== *)
theory Startup
  imports Max_Transport Exit_Executor Proxy_Replies
begin

text \<open>
  \<^verbatim>\<open>cmd/chunkbridge/main.go\<close> and \<^verbatim>\<open>internal/config/load.go\<close>: the commands, the start of the client and of
  the exit node from a configuration file, and how a process ends.

  Parameters: the file system, the YAML decoder, \<^verbatim>\<open>DeriveKey\<close> of relaykit, the environment, the clock
  and the binding of a listener, in \<open>system\<close>. Each error message is a constructor of \<open>start_error\<close>.
\<close>

section \<open>The system and the errors\<close>

record system =
  sy_Args :: "string list"
  sy_Getenv :: "string \<Rightarrow> string"
  sy_ReadFile :: "string \<Rightarrow> string + string"
  sy_Unmarshal :: "string \<Rightarrow> string + Config"
  sy_DeriveKey :: "string \<Rightarrow> string \<Rightarrow> 32 word \<times> 32 word \<times> 8 word \<Rightarrow> string + string"
  sy_Now :: int
  sy_bind :: "string \<times> string \<Rightarrow> string + string"

datatype start_error =
    ReadFailed string string
  | ParseFailed string string
  | ConfigInvalid cfg_error
  | PassphraseNotSet string
  | SaltNotSet
  | KeyFailed string
  | TransportFailed max_error
  | MemoryUnavailable
  | UnknownTransport string
  | ListenFailed string string
  | ServeFailed string
  | ShutdownFailed string
  | RunFailed
  | UnknownCommand string
  | Usage

section \<open>Building blocks\<close>

definition LoadFile :: "system \<Rightarrow> string \<Rightarrow> start_error + Config" where
  "LoadFile sys path =
     (case sy_ReadFile sys path of
        Inl err \<Rightarrow> Inl (ReadFailed path err)
      | Inr data \<Rightarrow>
          (case sy_Unmarshal sys data of
             Inl err \<Rightarrow> Inl (ParseFailed path err)
           | Inr cfg \<Rightarrow> Inr cfg))"

definition deriveKey :: "system \<Rightarrow> Config \<Rightarrow> start_error + string" where
  "deriveKey sys cfg =
     (let envName = (if cr_PassphraseEnv (Crypto cfg) = '''' then ''CHUNKBRIDGE_SHARED_KEY''
                     else cr_PassphraseEnv (Crypto cfg));
          passphrase = sy_Getenv sys envName
      in if passphrase = '''' then Inl (PassphraseNotSet envName)
         else
           let salt = cr_Salt (Crypto cfg) in
           if salt = '''' then Inl SaltNotSet
           else case sy_DeriveKey sys passphrase salt
                  (cr_Argon2Time (Crypto cfg), cr_Argon2Mem (Crypto cfg), cr_Argon2Threads (Crypto cfg)) of
                  Inl err \<Rightarrow> Inl (KeyFailed err)
                | Inr key \<Rightarrow> Inr key)"

text \<open>The arguments of \<^verbatim>\<open>NewAdaptiveRateLimiter\<close>, or \<open>None\<close> for a nil limiter.\<close>

definition buildRateLimiter :: "Config \<Rightarrow> (float64 \<times> float64 \<times> float64 \<times> int) option" where
  "buildRateLimiter cfg =
     (let l = Limits cfg in
      if f_le0 (rl_GlobalRPS l) \<or> f_le0 (rl_DataRPS l) \<or> f_le0 (rl_ControlRPS l) \<or> rl_Burst l \<le> 0 then None
      else Some (rl_GlobalRPS l, rl_DataRPS l, rl_ControlRPS l, rl_Burst l))"

definition buildTransport :: "system \<Rightarrow> Config \<Rightarrow> start_error + MaxTransport" where
  "buildTransport sys cfg =
     (if tc_Type (Transport cfg) = ''max'' then
        let mc = tc_Max (Transport cfg) in
        case NewMaxTransport (sy_Getenv sys)
          \<lparr>tr_BaseURL = mx_BaseURL mc, tr_TokenEnv = mx_TokenEnv mc, tr_PeerChatID = mx_PeerChatID mc,
           tr_FromHandle = mx_FromHandle mc, tr_PollIntervalMs = mx_PollMs mc,
           tr_PollTimeoutSec = mx_PollTimeoutSec mc, tr_SafeChars = ms_SafeChars (rl_Message (Limits cfg)),
           tr_DedupeMaxIDs = mx_DedupeMaxIDs mc\<rparr> of
          Inl err \<Rightarrow> Inl (TransportFailed err)
        | Inr t \<Rightarrow> Inr t
      else if tc_Type (Transport cfg) = ''memory'' then Inl MemoryUnavailable
      else Inl (UnknownTransport (tc_Type (Transport cfg))))"

definition cache_settings :: "CacheConfig \<Rightarrow> cache_config" where
  "cache_settings cc =
     \<lparr>cf_MaxEntries = cc_MaxEntries cc, cf_MaxBytes = cc_MaxBytes cc, cf_MaxEntryBytes = cc_MaxEntryBytes cc,
      cf_DefaultTTLSeconds = cc_DefaultTTLSeconds cc, cf_CachePrivate = cc_CachePrivate cc,
      cf_CacheWithCookies = cc_CacheWithCookies cc, cf_CacheWithAuthorization = cc_CacheWithAuthorization cc\<rparr>"

definition listen_addr :: "ListenConfig \<Rightarrow> string" where
  "listen_addr l = lc_Address l @ '':'' @ Itoa (lc_Port l)"

text \<open>
  \<^verbatim>\<open>net.Listen("tcp", addr)\<close>: the address has to be one that \<^verbatim>\<open>SplitHostPort\<close> splits; then host and port
  are bound, the empty host and the unspecified addresses to every interface.
\<close>

definition net_Listen :: "system \<Rightarrow> string \<Rightarrow> string + string" where
  "net_Listen sys addr =
     (case SplitHostPort addr of
        None \<Rightarrow> Inl ''invalid address''
      | Some hp \<Rightarrow> sy_bind sys hp)"

definition binds_everywhere :: "string \<times> string \<Rightarrow> bool" where
  "binds_everywhere hp \<longleftrightarrow> fst hp \<in> {'''', ''0.0.0.0'', ''::''}"

section \<open>The client\<close>

text \<open>What both commands do first: file, validation, key, transport.\<close>

definition prepare :: "system \<Rightarrow> string \<Rightarrow> start_error + Config \<times> MaxTransport" where
  "prepare sys default_path =
     (let cfgPath = (if length (sy_Args sys) > 2 then sy_Args sys ! 2 else default_path) in
      case LoadFile sys cfgPath of
        Inl err \<Rightarrow> Inl err
      | Inr cfg \<Rightarrow>
          (case Validate cfg of
             Some err \<Rightarrow> Inl (ConfigInvalid err)
           | None \<Rightarrow>
               (case deriveKey sys cfg of
                  Inl err \<Rightarrow> Inl err
                | Inr key \<Rightarrow>
                    (case buildTransport sys cfg of
                       Inl err \<Rightarrow> Inl err
                     | Inr t \<Rightarrow> Inr (cfg, t)))))"

definition build_proxy :: "system \<Rightarrow> Config \<Rightarrow> HTTPProxy" where
  "build_proxy sys cfg =
     (let p = NewHTTPProxy (sy_Now sys) cfg;
          p = (if buildRateLimiter cfg \<noteq> None then proxy_WithRateLimiter p else p)
      in if cc_Enabled (Cache cfg) then WithCache (cache_New (cache_settings (Cache cfg))) p else p)"

text \<open>The client up to the listener: the proxy, its transport and the address of the listener.\<close>

definition start_client :: "system \<Rightarrow> start_error + HTTPProxy \<times> MaxTransport \<times> string" where
  "start_client sys =
     (case prepare sys ''chunkbridge.client.yaml'' of
        Inl err \<Rightarrow> Inl err
      | Inr (cfg, t) \<Rightarrow>
          (let addr = listen_addr (Listen cfg) in
           case net_Listen sys addr of
             Inl err \<Rightarrow> Inl (ListenFailed addr err)
           | Inr lis \<Rightarrow> Inr (build_proxy sys cfg, t, lis)))"

text \<open>
  How a process ends: its exit code, the lines it printed, the errors it reported, and whether the
  deferred \<^verbatim>\<open>t.Close()\<close> ran (\<^verbatim>\<open>os.Exit\<close> skips it).
\<close>

record outcome =
  oc_code :: int
  oc_stdout :: "string list"
  oc_stderr :: "start_error list"
  oc_closed :: bool

definition failed :: "string list \<Rightarrow> start_error \<Rightarrow> outcome" where
  "failed out err = \<lparr>oc_code = 1, oc_stdout = out, oc_stderr = [err], oc_closed = False\<rparr>"

definition ended :: "string list \<Rightarrow> start_error list \<Rightarrow> outcome" where
  "ended out errs = \<lparr>oc_code = 0, oc_stdout = out, oc_stderr = errs, oc_closed = True\<rparr>"

datatype serve_result = ServeNil | ServerClosed | ServeError string

text \<open>Which branch of the final \<^verbatim>\<open>select\<close> is taken; \<open>Signalled\<close> holds the error of \<^verbatim>\<open>Shutdown\<close>.\<close>

datatype client_event = Served serve_result | Signalled "string option"

definition runClient :: "system \<Rightarrow> client_event \<Rightarrow> outcome" where
  "runClient sys ev =
     (case start_client sys of
        Inl err \<Rightarrow> failed [] err
      | Inr (p, t, lis) \<Rightarrow>
          (let out = [''chunkbridge client proxy listening on '' @ lis] in
           case ev of
             Served (ServeError err) \<Rightarrow> failed out (ServeFailed err)
           | Served _ \<Rightarrow> ended out []
           | Signalled shutdown \<Rightarrow>
               ended (out @ [''chunkbridge client shutting down...''])
                 (case shutdown of None \<Rightarrow> [] | Some err \<Rightarrow> [ShutdownFailed err])))"

section \<open>The exit node\<close>

definition build_executor :: "system \<Rightarrow> Config \<Rightarrow> HTTPExecutor" where
  "build_executor sys cfg =
     (let e = NewHTTPExecutor (sy_Now sys) cfg
      in if buildRateLimiter cfg \<noteq> None then exit_WithRateLimiter e else e)"

definition start_exit :: "system \<Rightarrow> start_error + HTTPExecutor \<times> MaxTransport" where
  "start_exit sys =
     (case prepare sys ''chunkbridge.exit.yaml'' of
        Inl err \<Rightarrow> Inl err
      | Inr (cfg, t) \<Rightarrow> Inr (build_executor sys cfg, t))"

text \<open>
  The exit node receives on its transport and runs until the channel is closed or a signal arrives;
  \<open>None\<close>: after the events \<open>evs\<close> it still runs.
\<close>

definition runExit ::
  "system \<Rightarrow> exit_env \<Rightarrow> exit_world \<Rightarrow> ('r \<Rightarrow> frame \<Rightarrow> frame option \<times> 'r) \<Rightarrow> 'r \<Rightarrow> run_event list \<Rightarrow>
   outcome option \<times> (HTTPExecutor option)"
where
  "runExit sys env w reasm r0 evs =
     (case start_exit sys of
        Inl err \<Rightarrow> (Some (failed [] err), None)
      | Inr (e, t) \<Rightarrow>
          (let out = [''chunkbridge exit node running'']; receiveOk = \<not> isl (fst (Receive t)) in
           case exit_Run_all env w reasm receiveOk evs (r0, e) of
             (None, r, e) \<Rightarrow> (None, Some e)
           | (Some ReturnedReceiveErr, r, e) \<Rightarrow> (Some (failed out RunFailed), Some e)
           | (Some _, r, e) \<Rightarrow> (Some (ended (out @ [''chunkbridge exit node stopped'']) []), Some e)))"

section \<open>The commands\<close>

datatype command = CmdVersion | CmdClient | CmdExit | CmdSelftest | CmdFailed "start_error list"

definition main_command :: "string list \<Rightarrow> command" where
  "main_command args =
     (if length args < 2 then CmdFailed [Usage]
      else let c = args ! 1 in
        if c = ''version'' then CmdVersion
        else if c = ''client'' then CmdClient
        else if c = ''exit'' then CmdExit
        else if c = ''selftest'' then CmdSelftest
        else CmdFailed [UnknownCommand c, Usage])"

section \<open>Facts\<close>

lemma prepare_Inr:
  "prepare sys path = Inr (cfg, t) \<longleftrightarrow>
     LoadFile sys (if length (sy_Args sys) > 2 then sy_Args sys ! 2 else path) = Inr cfg \<and>
     Validate cfg = None \<and> (\<exists>key. deriveKey sys cfg = Inr key) \<and> buildTransport sys cfg = Inr t"
  by (auto simp: prepare_def Let_def split: sum.split option.split)

lemma start_client_Inr:
  "start_client sys = Inr (p, t, lis) \<longleftrightarrow>
     (\<exists>cfg. prepare sys ''chunkbridge.client.yaml'' = Inr (cfg, t) \<and> p = build_proxy sys cfg \<and>
        net_Listen sys (listen_addr (Listen cfg)) = Inr lis)"
  by (auto simp: start_client_def Let_def split: sum.split prod.split)

lemma build_proxy_parts:
  "px_limiter (build_proxy sys cfg) \<longleftrightarrow> buildRateLimiter cfg \<noteq> None"
  "px_cache (build_proxy sys cfg) =
     (if cc_Enabled (Cache cfg) then Some (cache_New (cache_settings (Cache cfg))) else None)"
proof -
  have n: "\<not> px_limiter (NewHTTPProxy now cfg)" "px_cache (NewHTTPProxy now cfg) = None" for now
    by (simp_all add: NewHTTPProxy_def)
  have l: "px_limiter (proxy_WithRateLimiter p)" "px_cache (proxy_WithRateLimiter p) = px_cache p"
    "px_limiter (WithCache c p) = px_limiter p" "px_cache (WithCache c p) = Some c" for c p
    by (simp_all add: proxy_WithRateLimiter_def WithCache_def)
  show "px_limiter (build_proxy sys cfg) \<longleftrightarrow> buildRateLimiter cfg \<noteq> None"
    "px_cache (build_proxy sys cfg) =
     (if cc_Enabled (Cache cfg) then Some (cache_New (cache_settings (Cache cfg))) else None)"
    by (cases "buildRateLimiter cfg"; cases "cc_Enabled (Cache cfg)"; simp add: build_proxy_def n l)+
qed

lemma build_proxy_fresh: "fresh_proxy cfg (cache_settings (Cache cfg)) (build_proxy sys cfg)"
  by (simp add: build_proxy_def Let_def fresh_proxy_New del: not_None_eq)

text \<open>With a valid configuration a limiter is built exactly when one of the rates is switched on.\<close>

lemma buildRateLimiter_valid:
  assumes "Validate cfg = None"
  shows "buildRateLimiter cfg \<noteq> None \<longleftrightarrow> rates_set (Limits cfg)"
proof -
  let ?l = "Limits cfg"
  have lv: "limits_valid ?l" using assms by (simp add: Validate_None_sections)
  show ?thesis
  proof (cases "rates_set ?l")
    case True
    then have r: "\<forall>r \<in> {rl_GlobalRPS ?l, rl_DataRPS ?l, rl_ControlRPS ?l}. f_gt0 r \<or> r = NaN" "0 < rl_Burst ?l"
      using lv unfolding limits_valid_def Let_def by blast+
    then have "\<forall>r \<in> {rl_GlobalRPS ?l, rl_DataRPS ?l, rl_ControlRPS ?l}. \<not> f_le0 r"
      unfolding f_le0_iff by blast
    then show ?thesis using True r(2) by (simp add: buildRateLimiter_def Let_def)
  next
    case False
    then have "rl_Burst ?l \<le> 0" by (simp add: rates_set_def)
    then show ?thesis using False by (simp add: buildRateLimiter_def Let_def)
  qed
qed



lemma buildTransport_Inr:
  assumes "buildTransport sys cfg = Inr t"
  shows "tc_Type (Transport cfg) = ''max''" "mt_token t = sy_Getenv sys (mx_TokenEnv (tc_Max (Transport cfg)))"
    "mt_token t \<noteq> ''''" "transport_ok t" "\<not> mt_on429 t" "\<not> mt_receiveStarted t"
proof -
  let ?mc = "tc_Max (Transport cfg)"
  obtain tr where n: "NewMaxTransport (sy_Getenv sys) tr = Inr t" "tr_TokenEnv tr = mx_TokenEnv ?mc"
    and "tc_Type (Transport cfg) = ''max''"
    using assms by (auto simp: buildTransport_def Let_def split: if_splits sum.splits)
  then show "tc_Type (Transport cfg) = ''max''" "transport_ok t" by (simp_all add: NewMaxTransport_ok)
  show "mt_token t = sy_Getenv sys (mx_TokenEnv ?mc)" "mt_token t \<noteq> ''''"
    "\<not> mt_on429 t" "\<not> mt_receiveStarted t"
    using n by (auto simp: NewMaxTransport_def Let_def split: if_splits)
qed

lemma Itoa_plain: "CHR '':'' \<notin> set (Itoa n)" "CHR ''['' \<notin> set (Itoa n)" "CHR '']'' \<notin> set (Itoa n)"
  using Itoa_chars [of "CHR '':''" n] Itoa_chars [of "CHR ''[''" n] Itoa_chars [of "CHR '']''" n]
  by (auto simp: is_digit_def)

lemma SplitHostPort_bracket: "SplitHostPort (''[::]'' @ CHR '':'' # Itoa n) = Some (''::'', Itoa n)"
proof -
  have "LastIndexByte (''[::]'' @ CHR '':'' # Itoa n) (CHR '':'') = Some 4"
    using Itoa_plain [of n] by (subst LastIndexByte_append) simp_all
  moreover have "IndexByte (''[::]'' @ CHR '':'' # Itoa n) (CHR '']'') = Some 3" by simp
  ultimately show ?thesis using Itoa_plain [of n] by (simp add: SplitHostPort_def Let_def)
qed

section \<open>Properties\<close>

text \<open>
  C36: what a running client rests on. When the client starts, its configuration was valid and the
  passphrase was set; its transport is the MAX transport, well formed and with a token, and without
  a callback for 429 answers, so the rate limiter is never told of them; the proxy is fresh, has a
  limiter exactly when a rate is configured, and a cache exactly when it is enabled, empty and with
  positive limits.
\<close>

theorem client_startup:
  assumes "start_client sys = Inr (p, t, lis)"
  shows "\<exists>cfg. Validate cfg = None \<and> sy_Getenv sys (cr_PassphraseEnv (Crypto cfg)) \<noteq> '''' \<and>
    mt_token t = sy_Getenv sys (mx_TokenEnv (tc_Max (Transport cfg))) \<and> mt_token t \<noteq> '''' \<and>
    transport_ok t \<and> \<not> mt_on429 t \<and>
    fresh_proxy cfg (cache_settings (Cache cfg)) p \<and> (px_limiter p \<longleftrightarrow> rates_set (Limits cfg)) \<and>
    (case px_cache p of
       None \<Rightarrow> \<not> cc_Enabled (Cache cfg)
     | Some c \<Rightarrow> cc_Enabled (Cache cfg) \<and> cache_Len c = 0 \<and> 0 < cf_MaxEntries (ch_cfg c) \<and>
         0 < cf_MaxEntryBytes (ch_cfg c) \<and> cf_MaxEntryBytes (ch_cfg c) \<le> cf_MaxBytes (ch_cfg c))"
proof -
  obtain cfg where c: "prepare sys ''chunkbridge.client.yaml'' = Inr (cfg, t)" "p = build_proxy sys cfg"
    using assms by (auto simp: start_client_Inr)
  then have v: "Validate cfg = None" and t: "buildTransport sys cfg = Inr t"
    and k: "\<exists>key. deriveKey sys cfg = Inr key" by (simp_all add: prepare_Inr)
  have "crypto_valid cfg" "cache_valid (Cache cfg)" using v by (simp_all add: Validate_None_sections)
  moreover from this k have "sy_Getenv sys (cr_PassphraseEnv (Crypto cfg)) \<noteq> ''''"
    by (auto simp: deriveKey_def crypto_valid_def Let_def split: if_splits)
  ultimately show ?thesis
    using v buildTransport_Inr(2-5) [OF t] build_proxy_fresh [of cfg sys] buildRateLimiter_valid [OF v]
    by (intro exI [of _ cfg])
      (simp add: c(2) build_proxy_parts cache_valid_def cache_settings_def cache_New_def cache_Len_def
        del: not_None_eq)
qed


text \<open>
  C39: the listener's address. An address with a colon and without brackets, as \<open>::1\<close>, passes
  validation but never listens, whatever the system does, although the validation message recommends it;
  \<open>[::]\<close> passes validation and binds every interface; and a configuration of mode \<open>exit\<close>,
  whose listener is not validated at all, also starts as a client, with an empty address on every
  interface.
\<close>

theorem listen_address_forms:
  "(CHR '':'' \<in> set a \<and> hd a \<noteq> CHR ''['' \<longrightarrow>
      net_Listen sys (listen_addr \<lparr>lc_Address = a, lc_Port = port\<rparr>) = Inl ''invalid address'') \<and>
   (validateListen (cfg\<lparr>Listen := \<lparr>lc_Address = ''::1'', lc_Port = port\<rparr>\<rparr>) = None) \<and>
   (validateListen (cfg\<lparr>Listen := \<lparr>lc_Address = ''[::]'', lc_Port = port\<rparr>\<rparr>) = None \<and>
      net_Listen sys (listen_addr \<lparr>lc_Address = ''[::]'', lc_Port = port\<rparr>) = sy_bind sys (''::'', Itoa port)) \<and>
   (Validate cfg = None \<and> Mode cfg = ''exit'' \<longrightarrow>
      Validate (cfg\<lparr>Listen := \<lparr>lc_Address = '''', lc_Port = port\<rparr>\<rparr>) = None \<and>
      net_Listen sys (listen_addr \<lparr>lc_Address = '''', lc_Port = port\<rparr>) = sy_bind sys ('''', Itoa port)) \<and>
   binds_everywhere (''::'', Itoa port) \<and> binds_everywhere ('''', Itoa port)"
proof -
  have "SplitHostPort (a @ CHR '':'' # Itoa port) = None" if "CHR '':'' \<in> set a" "hd a \<noteq> CHR ''[''"
    by (rule SplitHostPort_colons) (use that Itoa_plain in auto)
  moreover have "SplitHostPort ('''' @ CHR '':'' # Itoa port) = Some ('''', Itoa port)"
    by (rule SplitHostPort_plain) (use Itoa_plain in auto)
  moreover note SplitHostPort_bracket [of port]
  moreover have "Validate (cfg\<lparr>Listen := l\<rparr>) = None" if "Validate cfg = None" "Mode cfg = ''exit''" for l
    using that by (simp add: Validate_None_sections config_specs)
  ultimately show ?thesis
    by (auto simp: net_Listen_def listen_addr_def binds_everywhere_def validateListen_def)
qed


section \<open>A concrete system\<close>

definition demo_client_cfg :: Config where
  "demo_client_cfg = DefaultClientConfig
     \<lparr>Transport := \<lparr>tc_Type = ''max'', tc_Max = (tc_Max (Transport DefaultClientConfig))
        \<lparr>mx_BaseURL := ''http://m'', mx_PeerChatID := ''c''\<rparr>\<rparr>,
      Cache := (Cache DefaultClientConfig)\<lparr>cc_Enabled := True\<rparr>\<rparr>"

definition demo_system :: "Config \<Rightarrow> system" where
  "demo_system cfg =
     \<lparr>sy_Args = [''chunkbridge'', ''client''], sy_Getenv = \<lambda>n. ''secret'', sy_ReadFile = \<lambda>f. Inr ''yaml'',
      sy_Unmarshal = \<lambda>d. Inr cfg, sy_DeriveKey = \<lambda>p s x. Inr ''key'', sy_Now = 7,
      sy_bind = \<lambda>hp. Inr (fst hp)\<rparr>"

lemma demo_started:
  obtains t where "start_client (demo_system demo_client_cfg) =
    Inr (build_proxy (demo_system demo_client_cfg) demo_client_cfg, t, ''127.0.0.1'')"
proof -
  let ?s = "demo_system demo_client_cfg"
  have "Validate demo_client_cfg = None"
    by (simp add: Validate_None_sections demo_client_cfg_def DefaultClientConfig_def config_specs)
  moreover have "deriveKey ?s demo_client_cfg = Inr ''key''"
    by (simp add: deriveKey_def demo_system_def demo_client_cfg_def DefaultClientConfig_def)
  moreover obtain t where "buildTransport ?s demo_client_cfg = Inr t"
    by (simp add: buildTransport_def NewMaxTransport_def demo_system_def demo_client_cfg_def
        DefaultClientConfig_def Let_def)
  ultimately have "prepare ?s ''chunkbridge.client.yaml'' = Inr (demo_client_cfg, t)"
    by (simp add: prepare_Inr LoadFile_def demo_system_def)
  moreover have "Listen demo_client_cfg = \<lparr>lc_Address = ''127.0.0.1'', lc_Port = 8080\<rparr>"
    by (simp add: demo_client_cfg_def DefaultClientConfig_def)
  moreover have "SplitHostPort (''127.0.0.1'' @ CHR '':'' # Itoa 8080) = Some (''127.0.0.1'', Itoa 8080)"
    by (rule SplitHostPort_plain) (use Itoa_plain [of 8080] in auto)
  ultimately have "start_client ?s = Inr (build_proxy ?s demo_client_cfg, t, ''127.0.0.1'')"
    by (simp add: start_client_Inr net_Listen_def listen_addr_def demo_system_def)
  then show ?thesis by (rule that)
qed

lemma client_startup_witness:
  "\<exists>p t lis c. start_client (demo_system demo_client_cfg) = Inr (p, t, lis) \<and> mt_token t \<noteq> '''' \<and>
     px_cache p = Some c \<and> cache_Len c = 0"
proof -
  obtain t where s: "start_client (demo_system demo_client_cfg) =
    Inr (build_proxy (demo_system demo_client_cfg) demo_client_cfg, t, ''127.0.0.1'')" by (rule demo_started)
  have "cc_Enabled (Cache demo_client_cfg)" by (simp add: demo_client_cfg_def)
  then show ?thesis using client_startup [OF s] s
    by (auto simp: build_proxy_parts)
qed


lemma listen_address_forms_witness:
  "net_Listen (demo_system demo_client_cfg) (listen_addr \<lparr>lc_Address = ''::1'', lc_Port = 8080\<rparr>)
     = Inl ''invalid address''"
  using listen_address_forms [of "''::1''" "demo_system demo_client_cfg" 8080 demo_client_cfg] by simp


end
