(* ===== verification/Relay_Path.thy ===== *)
theory Relay_Path
  imports Exit_Executor Proxy_Replies
begin

text \<open>
  The path of a request through both ends: the texts with which the exit node answers a frame, the
  outcome the relay session makes of them, and the reply the client receives. What is used of
  relaykit and of the JSON codec is stated by the named predicates below.
\<close>

section \<open>The two ends together\<close>

text \<open>The texts with which an exit node answers one request.\<close>

definition answer_texts :: "exit_env \<Rightarrow> exit_world \<Rightarrow> frame \<Rightarrow> HTTPExecutor \<Rightarrow> string list" where
  "answer_texts xenv w fr e = drop (length (xs_sends e)) (xs_sends (handleRequest xenv w fr e))"

text \<open>
  What \<^verbatim>\<open>SendRequest\<close> of relaykit makes of those texts (docs/protocol.md): the payload of the data
  frame whose chunks they are, or the message and status of an error frame.
\<close>

definition relay_delivers :: "exit_env \<Rightarrow> (string list \<Rightarrow> relay_outcome) \<Rightarrow> bool" where
  "relay_delivers xenv deliver \<longleftrightarrow>
     (\<forall>(rf :: frame) n. fr_Type rf = FrameDATA \<longrightarrow>
        deliver (map (\<lambda>c. the (xe_encode xenv c)) (numbered n (xe_chunk xenv rf))) = RelayAnswer (fr_Payload rf)) \<and>
     (\<forall>fr code st msg n. 100 \<le> st \<longrightarrow>
        deliver (map (\<lambda>c. the (xe_encode xenv c)) (numbered n (xe_chunk xenv (error_frame xenv fr code st msg)))) =
          RelayError msg st)"

text \<open>That a value survives the JSON encoding; every request and response of valid UTF-8 does.\<close>

definition request_survives :: "proxy_env \<Rightarrow> exit_env \<Rightarrow> proxy_relayRequest \<Rightarrow> bool" where
  "request_survives penv xenv q \<longleftrightarrow>
     (\<exists>s req. ye_marshal penv q = Some s \<and> xe_unmarshal xenv s = Some req \<and>
        rr_Method req = pq_Method q \<and> rr_URL req = pq_URL q \<and> rr_Body req = pq_Body q \<and>
        gomap_ok (rr_Headers req) \<and> map_of (rr_Headers req) = map_of (pq_Headers q))"

definition response_survives :: "exit_env \<Rightarrow> proxy_env \<Rightarrow> relayResponse \<Rightarrow> bool" where
  "response_survives xenv penv rel \<longleftrightarrow>
     (\<exists>s ps. xe_marshal xenv rel = Some s \<and> ye_unmarshal penv s = Some ps \<and>
        ps_StatusCode ps = rp_StatusCode rel \<and> ps_Body ps = rp_Body rel \<and>
        gomap_ok (ps_Headers ps) \<and> map_of (ps_Headers ps) = map_of (rp_Headers rel))"

text \<open>Headers as \<^verbatim>\<open>net/http\<close> hands them over: no name twice, every name canonical.\<close>

definition header_wf :: "header \<Rightarrow> bool" where
  "header_wf h \<longleftrightarrow> gomap_ok h \<and> (\<forall>k \<in> fst ` set h. canonical_key k = k)"

lemma header_wf_same:
  assumes "header_wf h" "gomap_ok h'" "map_of h' = map_of h" shows "header_wf h'"
proof -
  have "fst ` set h' = fst ` set h" using assms(3) by (metis gomap_dom)
  then show ?thesis using assms(1,2) by (simp add: header_wf_def)
qed

lemma Header_Values_same: "map_of h' = map_of h \<Longrightarrow> Header_Values h' k = Header_Values h k"
  by (simp add: Header_Values_def)

lemma Header_Values_copied:
  assumes "header_wf h" shows "Header_Values (add_all h []) k = Header_Values h k"
proof -
  have "concat (map snd (filter (\<lambda>(k', vs). canonical_key k' = canonical_key k) h)) = Header_Values h k"
    using assms
  proof (induction h)
    case (Cons p h)
    obtain k' vs where p: "p = (k', vs)" by (cases p)
    have k': "canonical_key k' = k'" "k' \<notin> fst ` set h" "header_wf h"
      using Cons.prems p by (auto simp: header_wf_def gomap_ok_def)
    have "canonical_key (fst q) \<noteq> k'" if "q \<in> set h" for q
      using k'(2,3) that by (metis header_wf_def image_eqI)
    then have "filter (\<lambda>(k'', vs). canonical_key k'' = k') h = []"
      by (fastforce simp: filter_empty_conv)
    then show ?case using Cons.IH k' p by (auto simp: Header_Values_def)
  qed (simp add: Header_Values_def)
  then show ?thesis by (simp add: Header_Values_add_all) (simp add: Header_Values_def)
qed

text \<open>What the exit node forwards of headers as \<^verbatim>\<open>net/http\<close> hands them over.\<close>

lemma connection_names_cong:
  "Header_Get h' ''Connection'' = Header_Get h ''Connection'' \<Longrightarrow> connection_names h' = connection_names h"
  by (simp add: connection_names_def)

lemma connection_names_same: "map_of h' = map_of h \<Longrightarrow> connection_names h' = connection_names h"
  by (rule connection_names_cong) (simp add: Header_Get_def)

lemma outbound_forwards:
  assumes "header_wf (rr_Headers req)"
  shows "Header_Values (oq_Header (outbound req)) k =
    (if canonical_key k \<in> canonical_key ` set hopByHopHeaders \<union> connection_names (rr_Headers req) then []
     else Header_Values (rr_Headers req) k)"
proof -
  have "connection_names (add_all (rr_Headers req) []) = connection_names (rr_Headers req)"
    by (rule connection_names_cong) (simp add: Header_Get_Values Header_Values_copied [OF assms])
  then show ?thesis
    by (simp add: outbound_def Header_Values_strip Header_Values_copied [OF assms])
qed

lemma decide_response_relay:
  assumes "\<not> content_type_denied xenv pol (up_Header resp)" "\<not> bd_fails (up_Body resp)"
    and "pl_MaxResponseBytes pol < max_int64"
    and "int (length (bd_data (up_Body resp))) \<le> max_response_bytes pol"
    and "xe_marshal xenv
      \<lparr>rp_StatusCode = up_Status resp, rp_Headers = up_Header resp, rp_Body = bd_data (up_Body resp)\<rparr> = Some a"
  shows "decide_response xenv pol resp = Relay
    \<lparr>rp_StatusCode = up_Status resp, rp_Headers = up_Header resp, rp_Body = bd_data (up_Body resp)\<rparr> a"
proof -
  let ?mx = "max_response_bytes pol"
  have "wrap64 (?mx + 1) = ?mx + 1"
    by (rule wrap64_id)
      (use assms(3) in \<open>auto simp: max_response_bytes_def int64_range_def min_int64_def max_int64_def\<close>)
  moreover have "ReadAll_limit (?mx + 1) (up_Body resp) = Some (bd_data (up_Body resp))"
    by (rule ReadAll_limit_complete) (use assms(2,4) in simp_all)
  ultimately show ?thesis using assms(1,4,5) by (simp add: decide_response_def Let_def)
qed

text \<open>What the client gets of a relayed response with consistent headers.\<close>

lemma client_reply:
  assumes "\<And>k. Header_Values g k = Header_Values h k"
    and "Header_Get h ''Content-Length'' = '''' \<or> declared_length h = Some (int (length data))"
    and "bodyAllowed st"
  defines "g' \<equiv> \<lambda>marked. sent_headers (if marked then Header_Set ''X-Chunkbridge-Cache'' ''MISS'' g else g)"
  shows "carried False st (g' marked) data = data"
    and "Header_Values (g' marked) k =
      (if marked \<and> canonical_key k = ''X-Chunkbridge-Cache'' then [''MISS''] else Header_Values h k)"
proof -
  have g: "Header_Get g k = Header_Get h k" for k using assms(1) by (simp add: Header_Get_Values)
  have d: "declared_length g = declared_length h" using g by (simp add: declared_length_def)
  have "Atoi '''' = None" by code_simp
  then have n: "Header_Get h ''Content-Length'' = '''' \<Longrightarrow> declared_length h = None"
    by (simp add: declared_length_def)
  show "carried False st (g' marked) data = data"
    using assms(2,3) d n by (auto simp: carried_def g'_def declared_sent)
  show "Header_Values (g' marked) k =
      (if marked \<and> canonical_key k = ''X-Chunkbridge-Cache'' then [''MISS''] else Header_Values h k)"
    using assms(1,2) d g by (auto simp: g'_def Header_Values_sent header_values mark_key)
qed

text \<open>The outcome of a round trip through an exit node that can send, in terms of its decision.\<close>

lemma round_trip:
  assumes "relay_delivers xenv deliver" "no_failures xenv w"
  shows "deliver (answer_texts xenv w fr e) =
    (case decide xenv (Policy (xs_cfg e)) (xw_Do w (length (xs_calls e))) fr of
       Relay rel payload \<Rightarrow> RelayAnswer payload
     | Refuse code st msg \<Rightarrow> RelayError msg st)"
proof -
  let ?r = "decide xenv (Policy (xs_cfg e)) (xw_Do w (length (xs_calls e))) fr"
  define rf where "rf = reply_frame xenv fr ?r"
  have "answer_texts xenv w fr e =
      map (\<lambda>c. the (xe_encode xenv c)) (numbered (xs_seqNum e) (xe_chunk xenv rf))"
    using sent_decision [of xenv w e fr] assms(2)
    by (auto simp: sent_reply_def answer_texts_def rf_def)
  moreover have "100 \<le> st" if "?r = Refuse code st msg" for code st msg
    using that by (auto simp: decide_def decide_response_def Let_def
        split: option.splits do_outcome.splits if_splits)
  ultimately show ?thesis
    using assms(1) by (cases ?r) (simp_all add: relay_delivers_def rf_def reply_frame_def)
qed

text \<open>A request that is allowed, misses the cache and is answered, from its client to the server and back.\<close>

lemma end_to_end:
  assumes "passes penv (px_cfg p) r bdy" "lookup_cached cw r (count_ProxyRequests p) = (None, p1)"
    and "rq_Method r \<noteq> ''HEAD''" "header_wf (rq_Header r)" "request_survives penv xenv (relay_request r bdy)"
    and "relay_delivers xenv deliver" "no_failures xenv w"
    and "yw_relay cw = (\<lambda>fr t. deliver (answer_texts xenv w fr e))"
    and "CheckRequest (xe_policy xenv) (Policy (xs_cfg e)) (target_url r) = None"
    and "NewRequest_ok (rq_Method r) (target_url r)"
    and "\<forall>oq. oq_Method oq = request_method (rq_Method r) \<and> oq_URL oq = target_url r \<and> oq_Body oq = bdy \<longrightarrow>
       xw_Do w (length (xs_calls e)) oq = DoResponse resp"
    and "header_wf (up_Header resp)" "\<not> content_type_denied xenv (Policy (xs_cfg e)) (up_Header resp)"
    and "\<not> bd_fails (up_Body resp)" "pl_MaxResponseBytes (Policy (xs_cfg e)) < max_int64"
    and "int (length (bd_data (up_Body resp))) \<le> max_response_bytes (Policy (xs_cfg e))"
    and "200 \<le> up_Status resp" "up_Status resp \<le> 999" "bodyAllowed (up_Status resp)"
    and "Header_Get (up_Header resp) ''Content-Length'' = '''' \<or>
      declared_length (up_Header resp) = Some (int (length (bd_data (up_Body resp))))"
    and "response_survives xenv penv
      \<lparr>rp_StatusCode = up_Status resp, rp_Headers = up_Header resp, rp_Body = bd_data (up_Body resp)\<rparr>"
  shows "\<exists>rep oq fr. fst (ServeHTTP penv cw r p) = Some rep \<and>
    hr_Status rep = up_Status resp \<and> hr_Body rep = bd_data (up_Body resp) \<and>
    (\<forall>k. Header_Values (hr_Header rep) k =
       (if px_cache p1 \<noteq> None \<and> canonical_key k = ''X-Chunkbridge-Cache'' then [''MISS'']
        else Header_Values (up_Header resp) k)) \<and>
    px_frames (snd (ServeHTTP penv cw r p)) = px_frames p1 @ [(fr, requestTimeout p1)] \<and>
    xs_calls (handleRequest xenv w fr e) = xs_calls e @ [oq] \<and>
    oq_Method oq = request_method (rq_Method r) \<and> oq_URL oq = target_url r \<and> oq_Body oq = bdy \<and>
    (\<forall>k. Header_Values (oq_Header oq) k =
       (if canonical_key k \<in> canonical_key ` set hopByHopHeaders \<union> connection_names (rq_Header r) then []
        else Header_Values (rq_Header r) k))"
proof -
  let ?pol = "Policy (xs_cfg e)" and ?b = "bd_data (up_Body resp)" and ?h = "up_Header resp"
  let ?rel = "\<lparr>rp_StatusCode = up_Status resp, rp_Headers = ?h, rp_Body = ?b\<rparr>"
  obtain s req where s: "ye_marshal penv (relay_request r bdy) = Some s" "xe_unmarshal xenv s = Some req"
    "rr_Method req = rq_Method r" "rr_URL req = target_url r" "rr_Body req = bdy"
    "gomap_ok (rr_Headers req)" "map_of (rr_Headers req) = map_of (rq_Header r)"
    using assms(5) by (auto simp: request_survives_def relay_request_def)
  obtain a ps where a: "xe_marshal xenv ?rel = Some a" "ye_unmarshal penv a = Some ps"
    "ps_StatusCode ps = up_Status resp" "ps_Body ps = ?b" "gomap_ok (ps_Headers ps)"
    "map_of (ps_Headers ps) = map_of ?h"
    using assms(21) by (auto simp: response_survives_def)
  define fr where "fr = the_frame cw p1 s"
  have fr: "fr_Payload fr = s" by (simp add: fr_def the_frame_def request_frame_def)
  have acc: "accepted xenv ?pol fr = Some req" using s fr assms(9,10) by (simp add: accepted_def)
  have "decide_response xenv ?pol resp = Relay ?rel a"
    using decide_response_relay [OF assms(13-16) a(1)] .
  then have "decide xenv ?pol (xw_Do w (length (xs_calls e))) fr = Relay ?rel a"
    using acc assms(11) s(3-5) by (simp add: decide_def outbound_def)
  then have "yw_relay cw fr (requestTimeout p1) = RelayAnswer a"
    using round_trip [OF assms(6,7), of fr e] assms(8) by simp
  note served = ServeHTTP_answered [OF assms(1,2) s(1) this [unfolded fr_def] a(2)]
  have calls: "xs_calls (handleRequest xenv w fr e) = xs_calls e @ [outbound req]"
    using handleRequest_answers [of xenv w fr e] acc by (simp add: answers_def)
  have sent: "Header_Values (oq_Header (outbound req)) k =
       (if canonical_key k \<in> canonical_key ` set hopByHopHeaders \<union> connection_names (rq_Header r) then []
        else Header_Values (rq_Header r) k)" for k
    using outbound_forwards [OF header_wf_same [OF assms(4) s(6,7)]] Header_Values_same [OF s(7)]
      connection_names_same [OF s(7)] by simp
  have hv: "Header_Values (add_all (ps_Headers ps) []) k = Header_Values ?h k" for k
    using Header_Values_copied [OF header_wf_same [OF assms(12) a(5,6)]] Header_Values_same [OF a(6)] by simp
  define marked where "marked = (px_cache p1 \<noteq> None)"
  note rep = client_reply [OF hv assms(20,19), of marked]
  have st: "200 \<le> ps_StatusCode ps" "ps_StatusCode ps \<le> 999" using a(3) assms(17,18) by simp_all
  note w = write_miss_reply [OF st, of marked r]
  have out: "oq_Method (outbound req) = request_method (rq_Method r)" "oq_URL (outbound req) = target_url r"
    "oq_Body (outbound req) = bdy" using s by (simp_all add: outbound_def)
  show ?thesis
    unfolding marked_def [symmetric]
    by (intro exI [of _ "outbound req"] exI [of _ fr] exI conjI allI,
        rule served(1) [folded marked_def, unfolded w])
      (use rep a(3,4) assms(3) served(2) fr_def calls sent out in simp_all)
qed

section \<open>A concrete codec\<close>

text \<open>A frame codec with one chunk per frame: a letter for the type, then the payload.\<close>

definition demo_exit :: exit_env where
  "demo_exit = demo_env
     \<lparr>xe_unmarshal := \<lambda>s. if s = ''http://h/a'' then
        Some \<lparr>rr_Method = ''GET'', rr_URL = ''http://h/a'', rr_Headers = [], rr_Body = ''''\<rparr> else None,
      xe_error_payload := \<lambda>c st m. replicate (nat st) (CHR ''x'') @ CHR ''|'' # m,
      xe_encode := \<lambda>f. Some ((if fr_Type f = FrameDATA then CHR ''D'' else CHR ''E'') # fr_Payload f)\<rparr>"

definition demo_deliver :: "string list \<Rightarrow> relay_outcome" where
  "demo_deliver ts =
     (case concat ts of
        [] \<Rightarrow> RelayFailed ''nothing''
      | c # p \<Rightarrow>
          if c = CHR ''D'' then RelayAnswer p
          else let k = length (takeWhile (\<lambda>x. x \<noteq> CHR ''|'') p) in RelayError (drop (Suc k) p) (int k))"

lemma demo_delivers: "relay_delivers demo_exit demo_deliver"
proof -
  have tw: "takeWhile (\<lambda>x. x \<noteq> CHR ''|'') (replicate n (CHR ''x'') @ CHR ''|'' # m) = replicate n (CHR ''x'')"
    for n m by (induction n) auto
  show ?thesis
    by (auto simp: relay_delivers_def demo_exit_def demo_env_def demo_deliver_def error_frame_def tw)
qed

end
