(* ===== verification/Interleaving.thy ===== *)
theory Interleaving
  imports Go_Prelude
begin

text \<open>
  Programs of several goroutines as step relations: the reachable states, the rule by which an
  invariant holds in all of them, and what the update of one entry does to a list of goroutines.
\<close>

inductive reach :: "'s \<Rightarrow> ('s \<Rightarrow> 's \<Rightarrow> bool) \<Rightarrow> 's \<Rightarrow> bool" for start step where
  reach_start: "reach start step start"
| reach_step: "reach start step s \<Longrightarrow> step s s' \<Longrightarrow> reach start step s'"

lemma reach_one: "step s s' \<Longrightarrow> reach s step s'"
  by (rule reach_step) (rule reach_start)

lemma reach_trans: "reach s step t \<Longrightarrow> reach r step s \<Longrightarrow> reach r step t"
  by (induction rule: reach.induct) (auto intro: reach.intros)

text \<open>The contract of an invariant: it holds at the start and every step from a reachable state keeps it.\<close>

locale invariant =
  fixes start :: 's and step :: "'s \<Rightarrow> 's \<Rightarrow> bool" and inv :: "'s \<Rightarrow> bool"
  assumes initially: "inv start"
    and preserved: "reach start step s \<Longrightarrow> inv s \<Longrightarrow> step s s' \<Longrightarrow> inv s'"
begin

lemma always: "reach start step s \<Longrightarrow> inv s"
  by (induction rule: reach.induct) (auto intro: initially preserved)

end

text \<open>How many entries satisfy a predicate.\<close>

definition how_many :: "('a \<Rightarrow> bool) \<Rightarrow> 'a list \<Rightarrow> nat" where
  "how_many P xs = length (filter P xs)"

lemma how_many_simps [simp]:
  "how_many P [] = 0" "how_many P (x # xs) = (if P x then 1 else 0) + how_many P xs"
  "how_many P (xs @ ys) = how_many P xs + how_many P ys"
  by (simp_all add: how_many_def)

lemma how_many_update:
  "i < length xs \<Longrightarrow>
     how_many P (xs[i := x]) + (if P (xs ! i) then 1 else 0) = how_many P xs + (if P x then 1 else 0)"
proof (induction xs arbitrary: i)
  case (Cons y ys)
  then show ?case by (cases i) auto
qed simp

lemma how_many_all: "(\<And>x. x \<in> set xs \<Longrightarrow> P x) \<Longrightarrow> how_many P xs = length xs"
  by (simp add: how_many_def)

lemma how_many_cong: "(\<And>x. x \<in> set xs \<Longrightarrow> P x = Q x) \<Longrightarrow> how_many P xs = how_many Q xs"
  by (simp add: how_many_def cong: filter_cong)

end
