(* ===== verification/Exit_Concurrent.thy ===== *)
theory Exit_Concurrent
  imports Exit_Executor Interleaving
begin

text \<open>
  The exit node as it runs: \<^verbatim>\<open>Run\<close> starts one goroutine per request, and the goroutines share the
  executor: its counters, its sequence number, its limiter and its transport. A step is one action
  of the receive loop or of one goroutine on the shared executor, and any interleaving may happen.
\<close>

section \<open>The step relation\<close>

text \<open>
  A goroutine running \<^verbatim>\<open>handleRequest\<close>: started; counted and about to decide; sending, with its
  request, its reply and the chunks still to go; holding a numbered chunk, before or after the
  wait for a token, with the count at which it was numbered; past the loop of \<^verbatim>\<open>sendFrame\<close>, which
  succeeded or not; returned.
\<close>

datatype handler =
    Spawned frame
  | Deciding frame
  | Chunks frame reply "frame list"
  | Holding bool frame reply nat frame "frame list"
  | Stopped frame reply bool
  | Ended frame reply bool

text \<open>
  The state: whether \<^verbatim>\<open>Run\<close> still receives, its reassembler, the shared executor, the goroutines in
  the order they were started. For the proofs: \<open>cn_sent\<close>, the chunks given to \<^verbatim>\<open>Send\<close> with their
  goroutine and count, and \<open>cn_count\<close>, how often the sequence counter was advanced.
\<close>

record 'r conc =
  cn_open :: bool
  cn_reasm :: 'r
  cn_exec :: HTTPExecutor
  cn_handlers :: "handler list"
  cn_sent :: "(nat \<times> nat \<times> frame) list"
  cn_count :: nat

text \<open>A new executor, with or without a rate limiter, and the state it starts in.\<close>

definition new_exit :: "bool \<Rightarrow> int \<Rightarrow> Config \<Rightarrow> HTTPExecutor" where
  "new_exit limited nano cfg =
     (if limited then exit_WithRateLimiter (NewHTTPExecutor nano cfg) else NewHTTPExecutor nano cfg)"

definition conc_start :: "'r \<Rightarrow> HTTPExecutor \<Rightarrow> 'r conc" where
  "conc_start r e =
     \<lparr>cn_open = True, cn_reasm = r, cn_exec = e, cn_handlers = [], cn_sent = [], cn_count = 0\<rparr>"

definition set_handler :: "nat \<Rightarrow> handler \<Rightarrow> 'r conc \<Rightarrow> 'r conc" where
  "set_handler i h s = s\<lparr>cn_handlers := (cn_handlers s)[i := h]\<rparr>"

definition stands :: "'r conc \<Rightarrow> nat \<Rightarrow> handler \<Rightarrow> bool" where
  "stands s i h \<longleftrightarrow> i < length (cn_handlers s) \<and> cn_handlers s ! i = h"

text \<open>The call of \<^verbatim>\<open>client.Do\<close> for an accepted request, and the counting at the end of a handler.\<close>

definition note_call :: "exit_env \<Rightarrow> frame \<Rightarrow> HTTPExecutor \<Rightarrow> HTTPExecutor" where
  "note_call env fr e =
     e\<lparr>xs_calls := xs_calls e @
        (case accepted env (Policy (xs_cfg e)) fr of None \<Rightarrow> [] | Some req \<Rightarrow> [outbound req])\<rparr>"

definition count_end :: "reply \<Rightarrow> bool \<Rightarrow> HTTPExecutor \<Rightarrow> HTTPExecutor" where
  "count_end r ok e =
     (case r of
        Relay rel payload \<Rightarrow> if ok then count_ExitResponses e else e
      | Refuse code st msg \<Rightarrow> count_ExitErrors e)"

inductive conc_step ::
  "exit_env \<Rightarrow> ('r \<Rightarrow> frame \<Rightarrow> frame option \<times> 'r) \<Rightarrow> 'r conc \<Rightarrow> 'r conc \<Rightarrow> bool"
  for env reasm
where
  collected:
    "cn_open s \<Longrightarrow> xe_decode env t = Some part \<Longrightarrow> reasm (cn_reasm s) part = (None, r') \<Longrightarrow>
     conc_step env reasm s (s\<lparr>cn_reasm := r'\<rparr>)"
| received:
    "cn_open s \<Longrightarrow> xe_decode env t = Some part \<Longrightarrow> reasm (cn_reasm s) part = (Some fr, r') \<Longrightarrow>
     conc_step env reasm s (s\<lparr>cn_reasm := r', cn_handlers := cn_handlers s @ [Spawned fr]\<rparr>)"
| closed: "conc_step env reasm s (s\<lparr>cn_open := False\<rparr>)"
| logged: "conc_step env reasm s (s\<lparr>cn_exec := exit_log f (cn_exec s)\<rparr>)"
| counted:
    "stands s i (Spawned fr) \<Longrightarrow>
     conc_step env reasm s (set_handler i (Deciding fr) (s\<lparr>cn_exec := count_ExitRequests (cn_exec s)\<rparr>))"
| decided:
    "stands s i (Deciding fr) \<Longrightarrow> r = decide env (Policy (xs_cfg (cn_exec s))) do fr \<Longrightarrow>
     conc_step env reasm s (set_handler i (Chunks fr r (xe_chunk env (reply_frame env fr r)))
       (s\<lparr>cn_exec := note_call env fr (cn_exec s)\<rparr>))"
| numbered:
    "stands s i (Chunks fr r (c # cs)) \<Longrightarrow> c' = c\<lparr>fr_SeqNum := xs_seqNum (take_seq (cn_exec s))\<rparr> \<Longrightarrow>
     conc_step env reasm s (set_handler i (Holding False fr r (Suc (cn_count s)) c' cs)
       (s\<lparr>cn_count := Suc (cn_count s), cn_exec := take_seq (cn_exec s)\<rparr>))"
| not_encoded:
    "stands s i (Holding False fr r j c cs) \<Longrightarrow> xe_encode env c = None \<Longrightarrow>
     conc_step env reasm s (set_handler i (Stopped fr r False) s)"
| waited:
    "stands s i (Holding False fr r j c cs) \<Longrightarrow> xe_encode env c \<noteq> None \<Longrightarrow>
     wait_token w (cn_exec s) = (ok, e') \<Longrightarrow>
     conc_step env reasm s (set_handler i (if ok then Holding True fr r j c cs else Stopped fr r False)
       (s\<lparr>cn_exec := e'\<rparr>))"
| sent:
    "stands s i (Holding True fr r j c cs) \<Longrightarrow> t = the (xe_encode env c) \<Longrightarrow>
     give_text w t (cn_exec s) = (ok, e') \<Longrightarrow>
     conc_step env reasm s (set_handler i (if ok then Chunks fr r cs else Stopped fr r False)
       (s\<lparr>cn_exec := e', cn_sent := cn_sent s @ [(i, j, c)]\<rparr>))"
| all_sent:
    "stands s i (Chunks fr r []) \<Longrightarrow> conc_step env reasm s (set_handler i (Stopped fr r True) s)"
| ended:
    "stands s i (Stopped fr r ok) \<Longrightarrow>
     conc_step env reasm s (set_handler i (Ended fr r ok) (s\<lparr>cn_exec := count_end r ok (cn_exec s)\<rparr>))"

definition conc_run ::
  "exit_env \<Rightarrow> ('r \<Rightarrow> frame \<Rightarrow> frame option \<times> 'r) \<Rightarrow> 'r \<Rightarrow> HTTPExecutor \<Rightarrow> 'r conc \<Rightarrow> bool"
where
  "conc_run env reasm r e = reach (conc_start r e) (conc_step env reasm)"

section \<open>One goroutine moves\<close>

lemma stands_set: "stands (set_handler i h s) k h' \<longleftrightarrow>
    (if k = i then i < length (cn_handlers s) \<and> h' = h else stands s k h')"
  by (auto simp: stands_def set_handler_def)

lemma set_handler_keeps [simp]:
  "cn_open (set_handler i h s) = cn_open s" "cn_reasm (set_handler i h s) = cn_reasm s"
  "cn_exec (set_handler i h s) = cn_exec s" "cn_sent (set_handler i h s) = cn_sent s"
  "cn_count (set_handler i h s) = cn_count s"
  "length (cn_handlers (set_handler i h s)) = length (cn_handlers s)"
  by (simp_all add: set_handler_def)

lemma stands_updates [simp]:
  "stands (s\<lparr>cn_open := a\<rparr>) i h = stands s i h" "stands (s\<lparr>cn_reasm := r\<rparr>) i h = stands s i h"
  "stands (s\<lparr>cn_exec := e\<rparr>) i h = stands s i h" "stands (s\<lparr>cn_count := b\<rparr>) i h = stands s i h"
  "stands (s\<lparr>cn_sent := t\<rparr>) i h = stands s i h"
  "stands (s\<lparr>cn_reasm := r, cn_handlers := cn_handlers s @ [h0]\<rparr>) i h \<longleftrightarrow>
     stands s i h \<or> i = length (cn_handlers s) \<and> h = h0"
  by (auto simp: stands_def nth_append)

lemma stands_unique: "stands s i h \<Longrightarrow> stands s i h' \<Longrightarrow> h = h'"
  by (simp add: stands_def)

lemma stands_length: "stands s i h \<Longrightarrow> i < length (cn_handlers s)"
  by (simp add: stands_def)

text \<open>What the steps do to the shared executor.\<close>

lemma shared_executor [simp]:
  "xs_seqNum (exit_log f e) = xs_seqNum e" "xs_sends (exit_log f e) = xs_sends e"
  "xs_seqNum (count_ExitRequests e) = xs_seqNum e" "xs_sends (count_ExitRequests e) = xs_sends e"
  "xs_seqNum (note_call env fr e) = xs_seqNum e" "xs_sends (note_call env fr e) = xs_sends e"
  "xs_seqNum (count_end r ok e) = xs_seqNum e" "xs_sends (count_end r ok e) = xs_sends e"
  by (simp_all add: executor_updates note_call_def count_end_def split: reply.split)

section \<open>Numbers\<close>

text \<open>A goroutine holds the chunk \<open>c\<close> numbered at the count \<open>j\<close>.\<close>

definition holds :: "'r conc \<Rightarrow> nat \<Rightarrow> nat \<Rightarrow> frame \<Rightarrow> bool" where
  "holds s i j c \<longleftrightarrow> (\<exists>b fr rf cs. stands s i (Holding b fr rf j c cs))"

text \<open>
  The counts of the chunks sent are distinct and not above the counter; the number of a chunk is
  its count; no count is held twice, or held and sent.
\<close>

definition numbers_inv :: "exit_env \<Rightarrow> 'r conc \<Rightarrow> bool" where
  "numbers_inv env s \<longleftrightarrow>
     xs_seqNum (cn_exec s) = of_nat (cn_count s) \<and>
     xs_sends (cn_exec s) = map (\<lambda>(i, j, c). the (xe_encode env c)) (cn_sent s) \<and>
     distinct (map (\<lambda>(i, j, c). j) (cn_sent s)) \<and>
     (\<forall>(i, j, c) \<in> set (cn_sent s).
        0 < j \<and> j \<le> cn_count s \<and> fr_SeqNum c = of_nat j \<and> i < length (cn_handlers s)) \<and>
     (\<forall>i j c. holds s i j c \<longrightarrow> 0 < j \<and> j \<le> cn_count s \<and> fr_SeqNum c = of_nat j \<and>
        (\<forall>(i', j', c') \<in> set (cn_sent s). j' \<noteq> j)) \<and>
     (\<forall>i i' j c c'. holds s i j c \<longrightarrow> holds s i' j c' \<longrightarrow> i' = i)"

lemma holds_set: "holds (set_handler i h s) k j c \<longleftrightarrow>
    (if k = i then i < length (cn_handlers s) \<and> (\<exists>b fr rf cs. h = Holding b fr rf j c cs) else holds s k j c)"
  by (auto simp: holds_def stands_set)

lemma holds_updates [simp]:
  "holds (s\<lparr>cn_open := a\<rparr>) i j c = holds s i j c" "holds (s\<lparr>cn_reasm := r\<rparr>) i j c = holds s i j c"
  "holds (s\<lparr>cn_exec := e\<rparr>) i j c = holds s i j c" "holds (s\<lparr>cn_count := b\<rparr>) i j c = holds s i j c"
  "holds (s\<lparr>cn_sent := t\<rparr>) i j c = holds s i j c"
  "holds (s\<lparr>cn_reasm := r, cn_handlers := cn_handlers s @ [Spawned fr]\<rparr>) i j c = holds s i j c"
  by (auto simp: holds_def)

lemma stands_holds: "stands s i (Holding b fr rf j c cs) \<Longrightarrow> holds s i j c"
  by (auto simp: holds_def)

text \<open>A goroutine that moves without taking a number, and an executor that keeps numbers and texts.\<close>

lemma numbers_inv_move:
  assumes "numbers_inv env s" "\<And>b fr rf j c cs. h = Holding b fr rf j c cs \<Longrightarrow> holds s i j c"
    and "xs_seqNum e' = xs_seqNum (cn_exec s)" "xs_sends e' = xs_sends (cn_exec s)"
  shows "numbers_inv env (set_handler i h (s\<lparr>cn_exec := e'\<rparr>))"
proof -
  have p: "holds (set_handler i h (s\<lparr>cn_exec := e'\<rparr>)) k j c \<Longrightarrow> holds s k j c" for k j c
    using assms(2) by (auto simp: holds_set split: if_splits)
  show ?thesis
    using assms(1) unfolding numbers_inv_def set_handler_keeps by (simp add: assms(3,4)) (blast dest: p)
qed

lemma numbers_inv_stop:
  assumes "numbers_inv env s" "\<And>b fr rf j c cs. h = Holding b fr rf j c cs \<Longrightarrow> holds s i j c"
  shows "numbers_inv env (set_handler i h s)"
  using numbers_inv_move [OF assms refl refl] by simp

text \<open>A count that is taken is above all the others; a chunk that is sent is no longer held.\<close>

lemma numbers_inv_numbered:
  assumes inv: "numbers_inv env s" and c: "fr_SeqNum c = xs_seqNum (cn_exec s) + 1"
    and s': "s' = set_handler i (Holding False fr r (Suc (cn_count s)) c cs)
       (s\<lparr>cn_count := Suc (cn_count s), cn_exec := take_seq (cn_exec s)\<rparr>)"
  shows "numbers_inv env s'"
proof -
  have le: "j \<le> cn_count s" if "(i', j, c') \<in> set (cn_sent s)" for i' j c'
    using inv that by (auto simp: numbers_inv_def)
  have held: "0 < j \<and> j \<le> cn_count s \<and> fr_SeqNum c' = of_nat j \<and> (\<forall>(i', j', c') \<in> set (cn_sent s). j' \<noteq> j)"
    if "holds s i' j c'" for i' j c' using inv that unfolding numbers_inv_def by blast
  have uniq: "k' = k" if "holds s k j0 c0" "holds s k' j0 c0'" for k k' j0 c0 c0'
    using inv that unfolding numbers_inv_def by blast
  have n: "xs_seqNum (cn_exec s) + 1 = of_nat (Suc (cn_count s))" using inv by (simp add: numbers_inv_def)
  have q: "k = i \<and> j0 = Suc (cn_count s) \<and> fr_SeqNum c0 = of_nat j0 \<or> k \<noteq> i \<and> holds s k j0 c0"
    if "holds s' k j0 c0" for k j0 c0
    using that n c by (auto simp: s' holds_set split: if_splits)
  show ?thesis unfolding numbers_inv_def
  proof (intro conjI)
    show "\<forall>i i' j c c'. holds s' i j c \<longrightarrow> holds s' i' j c' \<longrightarrow> i' = i"
    proof (intro allI impI)
      fix k k' j0 c0 c0' assume "holds s' k j0 c0" "holds s' k' j0 c0'"
      note this [THEN q]
      then show "k' = k" using uniq held by (metis not_less_eq_eq order_refl)
    qed
    show "\<forall>k j0 c0. holds s' k j0 c0 \<longrightarrow> 0 < j0 \<and> j0 \<le> cn_count s' \<and> fr_SeqNum c0 = of_nat j0 \<and>
        (\<forall>(i', j', c') \<in> set (cn_sent s'). j' \<noteq> j0)"
    proof (intro allI impI)
      fix k j0 c0 assume "holds s' k j0 c0"
      then consider "j0 = Suc (cn_count s)" "fr_SeqNum c0 = of_nat j0" | "holds s k j0 c0" using q by blast
      then show "0 < j0 \<and> j0 \<le> cn_count s' \<and> fr_SeqNum c0 = of_nat j0 \<and>
          (\<forall>(i', j', c') \<in> set (cn_sent s'). j' \<noteq> j0)"
      proof cases
        case 1
        then show ?thesis using le by (auto simp: s' dest: le)
      next
        case 2
        then show ?thesis using held [OF 2] by (simp add: s')
      qed
    qed
  qed (use inv n in \<open>auto simp: s' numbers_inv_def\<close>)
qed

lemma numbers_inv_sent:
  assumes inv: "numbers_inv env s" and p: "holds s i j c" and h: "\<And>b fr rf j c cs. h \<noteq> Holding b fr rf j c cs"
    and e': "xs_seqNum e' = xs_seqNum (cn_exec s)" "xs_sends e' = xs_sends (cn_exec s) @ [the (xe_encode env c)]"
    and s': "s' = set_handler i h (s\<lparr>cn_exec := e', cn_sent := cn_sent s @ [(i, j, c)]\<rparr>)"
  shows "numbers_inv env s'"
proof -
  have held: "0 < j \<and> j \<le> cn_count s \<and> fr_SeqNum c' = of_nat j \<and> (\<forall>(i', j', c') \<in> set (cn_sent s). j' \<noteq> j)"
    if "holds s i' j c'" for i' j c' using inv that unfolding numbers_inv_def by blast
  have uniq: "k' = k" if "holds s k j0 c0" "holds s k' j0 c0'" for k k' j0 c0 c0'
    using inv that unfolding numbers_inv_def by blast
  have q: "k \<noteq> i \<and> holds s k j0 c0" if "holds s' k j0 c0" for k j0 c0
    using that h by (auto simp: s' holds_set split: if_splits)
  have i: "i < length (cn_handlers s)" using p by (auto simp: holds_def stands_def)
  show ?thesis unfolding numbers_inv_def
  proof (intro conjI)
    show "\<forall>i i' j c c'. holds s' i j c \<longrightarrow> holds s' i' j c' \<longrightarrow> i' = i" using uniq q by blast
    show "\<forall>k j0 c0. holds s' k j0 c0 \<longrightarrow> 0 < j0 \<and> j0 \<le> cn_count s' \<and> fr_SeqNum c0 = of_nat j0 \<and>
        (\<forall>(i', j', c') \<in> set (cn_sent s'). j' \<noteq> j0)"
    proof (intro allI impI)
      fix k j0 c0 assume "holds s' k j0 c0"
      then have k: "k \<noteq> i" "holds s k j0 c0" using q by auto
      then have "j \<noteq> j0" using uniq p by blast
      then show "0 < j0 \<and> j0 \<le> cn_count s' \<and> fr_SeqNum c0 = of_nat j0 \<and>
          (\<forall>(i', j', c') \<in> set (cn_sent s'). j' \<noteq> j0)"
        using held [OF k(2)] by (auto simp: s')
    qed
  qed (use inv i held [OF p] in \<open>auto simp: s' numbers_inv_def e'\<close>)
qed

lemma numbers_inv_step:
  assumes inv: "numbers_inv env s" and step: "conc_step env reasm s s'"
  shows "numbers_inv env s'"
  using step
proof (cases rule: conc_step.cases)
  case (counted i fr)
  show ?thesis unfolding counted(1) by (rule numbers_inv_move [OF inv]) simp_all
next
  case (decided i fr r do)
  show ?thesis unfolding decided(1) by (rule numbers_inv_move [OF inv]) simp_all
next
  case (numbered i fr r c cs c')
  show ?thesis by (rule numbers_inv_numbered [OF inv _ numbered(1)]) (simp add: numbered(3))
next
  case (not_encoded i fr r j c cs)
  show ?thesis unfolding not_encoded(1) by (rule numbers_inv_stop [OF inv]) simp
next
  case (waited i fr r j c cs w ok e')
  show ?thesis unfolding waited(1)
    by (rule numbers_inv_move [OF inv])
      (use wait_token_simps [OF waited(4)] stands_holds [OF waited(2)] in \<open>auto split: if_splits\<close>)
next
  case (sent i fr r j c cs t w ok e')
  show ?thesis
    by (rule numbers_inv_sent [OF inv stands_holds [OF sent(2)] _ _ _ sent(1)])
      (use give_text_simps [OF sent(4)] sent(3) in auto)
next
  case (all_sent i fr r)
  show ?thesis unfolding all_sent(1) by (rule numbers_inv_stop [OF inv]) simp
next
  case (ended i fr r ok)
  show ?thesis unfolding ended(1) by (rule numbers_inv_move [OF inv]) simp_all
qed (use inv in \<open>auto simp: numbers_inv_def\<close>)

section \<open>Order\<close>

definition unnumbered :: "frame \<Rightarrow> frame" where
  "unnumbered c = c\<lparr>fr_SeqNum := 0\<rparr>"

text \<open>What the goroutine \<open>i\<close> has sent, with the counts.\<close>

definition own :: "'r conc \<Rightarrow> nat \<Rightarrow> (nat \<times> frame) list" where
  "own s i = map snd (filter (\<lambda>x. fst x = i) (cn_sent s))"

text \<open>\<open>r\<close> is what the request frame \<open>fr\<close> is answered with, for some outcome of the outbound call.\<close>

definition answer_to :: "exit_env \<Rightarrow> PolicyConfig \<Rightarrow> frame \<Rightarrow> reply \<Rightarrow> bool" where
  "answer_to env pol fr r \<longleftrightarrow> (\<exists>do. r = decide env pol do fr)"

text \<open>What a goroutine has sent so far, against the chunks of its reply.\<close>

definition sent_of_reply :: "exit_env \<Rightarrow> PolicyConfig \<Rightarrow> frame \<Rightarrow> reply \<Rightarrow> bool \<Rightarrow> (nat \<times> frame) list \<Rightarrow> bool" where
  "sent_of_reply env pol fr r ok xs \<longleftrightarrow>
     answer_to env pol fr r \<and>
     prefix (map (unnumbered \<circ> snd) xs) (map unnumbered (xe_chunk env (reply_frame env fr r))) \<and>
     (ok \<longrightarrow> map (unnumbered \<circ> snd) xs = map unnumbered (xe_chunk env (reply_frame env fr r)))"

fun handler_ok :: "exit_env \<Rightarrow> PolicyConfig \<Rightarrow> (nat \<times> frame) list \<Rightarrow> handler \<Rightarrow> bool" where
  "handler_ok env pol xs (Spawned fr) \<longleftrightarrow> xs = []"
| "handler_ok env pol xs (Deciding fr) \<longleftrightarrow> xs = []"
| "handler_ok env pol xs (Chunks fr r cs) \<longleftrightarrow>
     answer_to env pol fr r \<and>
     map (unnumbered \<circ> snd) xs @ map unnumbered cs = map unnumbered (xe_chunk env (reply_frame env fr r))"
| "handler_ok env pol xs (Holding b fr r j c cs) \<longleftrightarrow>
     answer_to env pol fr r \<and> (\<forall>j' \<in> fst ` set xs. j' < j) \<and>
     map (unnumbered \<circ> snd) xs @ unnumbered c # map unnumbered cs =
       map unnumbered (xe_chunk env (reply_frame env fr r))"
| "handler_ok env pol xs (Stopped fr r ok) \<longleftrightarrow> sent_of_reply env pol fr r ok xs"
| "handler_ok env pol xs (Ended fr r ok) \<longleftrightarrow> sent_of_reply env pol fr r ok xs"

definition order_inv :: "exit_env \<Rightarrow> Config \<Rightarrow> 'r conc \<Rightarrow> bool" where
  "order_inv env cfg s \<longleftrightarrow>
     xs_cfg (cn_exec s) = cfg \<and>
     (\<forall>i h. stands s i h \<longrightarrow>
        handler_ok env (Policy cfg) (own s i) h \<and> sorted_wrt (<) (map fst (own s i)))"

lemma own_updates [simp]:
  "own (set_handler i h s) k = own s k" "own (s\<lparr>cn_open := a\<rparr>) k = own s k"
  "own (s\<lparr>cn_reasm := r\<rparr>) k = own s k" "own (s\<lparr>cn_exec := e\<rparr>) k = own s k"
  "own (s\<lparr>cn_count := b\<rparr>) k = own s k" "own (s\<lparr>cn_handlers := hs\<rparr>) k = own s k"
  "own (s\<lparr>cn_sent := cn_sent s @ [(i, x)]\<rparr>) k = (if k = i then own s k @ [x] else own s k)"
  "own (s\<lparr>cn_exec := e, cn_sent := cn_sent s @ [(i, x)]\<rparr>) k = (if k = i then own s k @ [x] else own s k)"
  by (simp_all add: own_def set_handler_def)

lemma own_count:
  assumes "numbers_inv env s" "j \<in> fst ` set (own s i)" shows "j \<le> cn_count s"
  using assms by (auto simp: own_def numbers_inv_def)

lemma own_new:
  assumes "numbers_inv env s" "length (cn_handlers s) \<le> i" shows "own s i = []"
  using assms by (auto simp: own_def numbers_inv_def filter_empty_conv)

lemma executor_cfg [simp]:
  "xs_cfg (exit_log f e) = xs_cfg e" "xs_cfg (count_ExitRequests e) = xs_cfg e"
  "xs_cfg (note_call env fr e) = xs_cfg e" "xs_cfg (count_end r ok e) = xs_cfg e"
  "xs_cfg (take_seq e) = xs_cfg e"
  by (simp_all add: executor_updates note_call_def count_end_def take_seq_def split: reply.split)

lemma executor_cfg_pair:
  "wait_token w e = (ok, e') \<Longrightarrow> xs_cfg e' = xs_cfg e" "give_text w t e = (ok, e') \<Longrightarrow> xs_cfg e' = xs_cfg e"
  using wait_token_simps give_text_simps by (auto simp: same_core_def)

text \<open>A goroutine that moves without sending.\<close>

lemma order_inv_move:
  assumes "order_inv env cfg s" "stands s i h0" "xs_cfg e' = xs_cfg (cn_exec s)"
    and "handler_ok env (Policy cfg) (own s i) h0 \<Longrightarrow> handler_ok env (Policy cfg) (own s i) h"
  shows "order_inv env cfg (set_handler i h (s\<lparr>cn_exec := e'\<rparr>))"
  using assms by (auto simp: order_inv_def stands_set)

lemma order_inv_stop:
  assumes "order_inv env cfg s" "stands s i h0"
    and "handler_ok env (Policy cfg) (own s i) h0 \<Longrightarrow> handler_ok env (Policy cfg) (own s i) h"
  shows "order_inv env cfg (set_handler i h s)"
  using order_inv_move [OF assms(1,2) refl assms(3)] by simp

lemma handler_ok_stopped:
  "handler_ok env pol xs (Chunks fr r cs) \<Longrightarrow> handler_ok env pol xs (Stopped fr r False)"
  "handler_ok env pol xs (Holding b fr r j c cs) \<Longrightarrow> handler_ok env pol xs (Stopped fr r False)"
  by (auto simp: sent_of_reply_def prefix_def dest: sym)

lemma order_inv_step:
  assumes inv: "order_inv env cfg s" and num: "numbers_inv env s" and step: "conc_step env reasm s s'"
  shows "order_inv env cfg s'"
  using step
proof (cases rule: conc_step.cases)
  case (received t part fr r')
  then show ?thesis using inv own_new [OF num, of "length (cn_handlers s)"] by (auto simp: order_inv_def)
next
  case (counted i fr)
  show ?thesis unfolding counted(1) by (rule order_inv_move [OF inv counted(2)]) simp_all
next
  case (decided i fr r do)
  show ?thesis unfolding decided(1)
    by (rule order_inv_move [OF inv decided(2)])
      (use decided(3) inv in \<open>auto simp: answer_to_def order_inv_def\<close>)
next
  case (numbered i fr r c cs c')
  have "order_inv env cfg (s\<lparr>cn_count := Suc (cn_count s)\<rparr>)"
    "stands (s\<lparr>cn_count := Suc (cn_count s)\<rparr>) i (Chunks fr r (c # cs))"
    using inv numbered(2) by (simp_all add: order_inv_def)
  from order_inv_move [OF this, of "take_seq (cn_exec s)" "Holding False fr r (Suc (cn_count s)) c' cs"]
  show ?thesis unfolding numbered(1)
    using own_count [OF num, of _ i] by (auto simp: numbered(3) unnumbered_def le_imp_less_Suc)
next
  case (not_encoded i fr r j c cs)
  show ?thesis unfolding not_encoded(1)
    by (rule order_inv_stop [OF inv not_encoded(2)]) (rule handler_ok_stopped)
next
  case (waited i fr r j c cs w ok e')
  show ?thesis unfolding waited(1)
    by (rule order_inv_move [OF inv waited(2)])
      (use executor_cfg_pair(1) [OF waited(4)] handler_ok_stopped(2) in \<open>auto simp del: handler_ok.simps(5)\<close>)
next
  case (sent i fr r j c cs t w ok e')
  have ok: "handler_ok env (Policy cfg) (own s i) (Holding True fr r j c cs)"
    "sorted_wrt (<) (map fst (own s i))"
    using inv sent(2) unfolding order_inv_def by blast+
  then have "handler_ok env (Policy cfg) (own s i @ [(j, c)]) (Chunks fr r cs)"
    "sorted_wrt (<) (map fst (own s i @ [(j, c)]))"
    by (auto simp: sorted_wrt_append)
  moreover from this(1) have "handler_ok env (Policy cfg) (own s i @ [(j, c)])
      (if ok then Chunks fr r cs else Stopped fr r False)"
    using handler_ok_stopped(1) by auto
  ultimately show ?thesis using inv executor_cfg_pair(2) [OF sent(4)] unfolding sent(1)
    by (auto simp: order_inv_def stands_set)
next
  case (all_sent i fr r)
  show ?thesis unfolding all_sent(1) by (rule order_inv_stop [OF inv all_sent(2)]) (simp add: sent_of_reply_def)
next
  case (ended i fr r ok)
  show ?thesis unfolding ended(1) by (rule order_inv_move [OF inv ended(2)]) simp_all
qed (use inv in \<open>auto simp: order_inv_def\<close>)

section \<open>Counters and outbound requests\<close>

text \<open>The goroutines that \<^verbatim>\<open>ExitRequests\<close>, \<^verbatim>\<open>ExitResponses\<close> and \<^verbatim>\<open>ExitErrors\<close> count.\<close>

fun has_counted :: "handler \<Rightarrow> bool" where
  "has_counted (Spawned fr) \<longleftrightarrow> False"
| "has_counted h \<longleftrightarrow> True"

fun has_relayed :: "handler \<Rightarrow> bool" where
  "has_relayed (Ended fr (Relay rel payload) ok) \<longleftrightarrow> ok"
| "has_relayed h \<longleftrightarrow> False"

fun has_refused :: "handler \<Rightarrow> bool" where
  "has_refused (Ended fr (Refuse code st msg) ok) \<longleftrightarrow> True"
| "has_refused h \<longleftrightarrow> False"

fun has_returned :: "handler \<Rightarrow> bool" where
  "has_returned (Ended fr r ok) \<longleftrightarrow> True"
| "has_returned h \<longleftrightarrow> False"

definition lost_response :: "handler \<Rightarrow> bool" where
  "lost_response h \<longleftrightarrow> has_returned h \<and> \<not> has_relayed h \<and> \<not> has_refused h"

definition counts_inv :: "'r conc \<Rightarrow> bool" where
  "counts_inv s \<longleftrightarrow>
     exit_counts (cn_exec s) =
       (wrap64 (int (how_many has_counted (cn_handlers s))),
        wrap64 (int (how_many has_relayed (cn_handlers s))),
        wrap64 (int (how_many has_refused (cn_handlers s))))"

lemma incr_wrap: "incr (wrap64 (int n)) = wrap64 (int (Suc n))"
  by (simp add: incr_def wrap64_def algebra_simps mod_simps)

lemma how_many_set:
  assumes "stands s i h0"
  shows "P h = P h0 \<Longrightarrow> how_many P (cn_handlers (set_handler i h s)) = how_many P (cn_handlers s)"
    and "P h \<Longrightarrow> \<not> P h0 \<Longrightarrow> how_many P (cn_handlers (set_handler i h s)) = Suc (how_many P (cn_handlers s))"
  using how_many_update [of i "cn_handlers s" P h] assms by (auto simp: stands_def set_handler_def split: if_splits)

lemma exit_counts_simps [simp]:
  "exit_counts (exit_log f e) = exit_counts e" "exit_counts (take_seq e) = exit_counts e"
  "exit_counts (note_call env fr e) = exit_counts e"
  "exit_counts (count_ExitRequests e) = (case exit_counts e of (q, p, x) \<Rightarrow> (incr q, p, x))"
  "exit_counts (count_end r ok e) = (case exit_counts e of (q, p, x) \<Rightarrow>
     (case r of Relay rel payload \<Rightarrow> (q, if ok then incr p else p, x) | Refuse code st msg \<Rightarrow> (q, p, incr x)))"
  by (simp_all add: exit_counts_def executor_updates note_call_def count_end_def take_seq_def split: reply.split)

lemma exit_counts_pair:
  "wait_token w e = (ok, e') \<Longrightarrow> exit_counts e' = exit_counts e"
  "give_text w t e = (ok, e') \<Longrightarrow> exit_counts e' = exit_counts e"
  using wait_token_simps give_text_simps by (auto simp: same_core_def exit_counts_def)

lemma counts_inv_move:
  assumes "counts_inv s" "stands s i h0" "exit_counts e' = exit_counts (cn_exec s)"
    and "has_counted h = has_counted h0" "has_relayed h = has_relayed h0" "has_refused h = has_refused h0"
    and "cn_exec s' = e'" "cn_handlers s' = cn_handlers (set_handler i h s)"
  shows "counts_inv s'"
  using assms how_many_set [OF assms(2)] by (simp add: counts_inv_def)

lemma counts_inv_step:
  assumes inv: "counts_inv s" and step: "conc_step env reasm s s'"
  shows "counts_inv s'"
  using step
proof (cases rule: conc_step.cases)
  case (counted i fr)
  have "how_many has_counted (cn_handlers s') = Suc (how_many has_counted (cn_handlers s))"
    "how_many has_relayed (cn_handlers s') = how_many has_relayed (cn_handlers s)"
    "how_many has_refused (cn_handlers s') = how_many has_refused (cn_handlers s)"
    using how_many_set [OF counted(2), of _ "Deciding fr"] by (simp_all add: counted(1) set_handler_def)
  then show ?thesis using inv by (simp add: counts_inv_def counted(1) incr_wrap)
next
  case (decided i fr r do)
  show ?thesis by (rule counts_inv_move [OF inv decided(2)]) (simp_all add: decided(1) set_handler_def)
next
  case (numbered i fr r c cs c')
  show ?thesis by (rule counts_inv_move [OF inv numbered(2)]) (simp_all add: numbered(1) set_handler_def)
next
  case (not_encoded i fr r j c cs)
  show ?thesis by (rule counts_inv_move [OF inv not_encoded(2)]) (simp_all add: not_encoded(1) set_handler_def)
next
  case (waited i fr r j c cs w ok e')
  show ?thesis
    by (rule counts_inv_move [OF inv waited(2) exit_counts_pair(1) [OF waited(4)],
          where h = "if ok then Holding True fr r j c cs else Stopped fr r False"])
      (simp_all add: waited(1) set_handler_def)
next
  case (sent i fr r j c cs t w ok e')
  show ?thesis
    by (rule counts_inv_move [OF inv sent(2) exit_counts_pair(2) [OF sent(4)],
          where h = "if ok then Chunks fr r cs else Stopped fr r False"])
      (simp_all add: sent(1) set_handler_def)
next
  case (all_sent i fr r)
  show ?thesis by (rule counts_inv_move [OF inv all_sent(2)]) (simp_all add: all_sent(1) set_handler_def)
next
  case (ended i fr r ok)
  have h: "how_many has_counted (cn_handlers s') = how_many has_counted (cn_handlers s)"
    "how_many has_relayed (cn_handlers s') =
       (if has_relayed (Ended fr r ok) then Suc else id) (how_many has_relayed (cn_handlers s))"
    "how_many has_refused (cn_handlers s') =
       (if has_refused (Ended fr r ok) then Suc else id) (how_many has_refused (cn_handlers s))"
    using how_many_set [OF ended(2), of _ "Ended fr r ok"] by (simp_all add: ended(1) set_handler_def)
  show ?thesis using inv h by (cases r) (simp_all add: counts_inv_def ended(1) incr_wrap)
qed (use inv in \<open>auto simp: counts_inv_def\<close>)

text \<open>Only accepted requests reach the HTTP client.\<close>

definition calls_inv :: "exit_env \<Rightarrow> Config \<Rightarrow> 'r conc \<Rightarrow> bool" where
  "calls_inv env cfg s \<longleftrightarrow>
     xs_cfg (cn_exec s) = cfg \<and>
     (\<forall>oq \<in> set (xs_calls (cn_exec s)). \<exists>fr req. accepted env (Policy cfg) fr = Some req \<and> oq = outbound req)"

lemma executor_calls [simp]:
  "xs_calls (exit_log f e) = xs_calls e" "xs_calls (count_ExitRequests e) = xs_calls e"
  "xs_calls (count_end r ok e) = xs_calls e" "xs_calls (take_seq e) = xs_calls e"
  by (simp_all add: executor_updates count_end_def take_seq_def split: reply.split)

lemma executor_calls_pair:
  "wait_token w e = (ok, e') \<Longrightarrow> xs_calls e' = xs_calls e" "give_text w t e = (ok, e') \<Longrightarrow> xs_calls e' = xs_calls e"
  using wait_token_simps give_text_simps by (auto simp: same_core_def)

lemma calls_inv_step:
  assumes inv: "calls_inv env cfg s" and step: "conc_step env reasm s s'"
  shows "calls_inv env cfg s'"
  using step
proof (cases rule: conc_step.cases)
  case (decided i fr r do)
  then show ?thesis using inv by (auto simp: calls_inv_def note_call_def split: option.splits)
next
  case (waited i fr r j c cs w ok e')
  then show ?thesis
    using inv executor_cfg_pair(1) [OF waited(4)] executor_calls_pair(1) [OF waited(4)] by (simp add: calls_inv_def)
next
  case (sent i fr r j c cs t w ok e')
  then show ?thesis
    using inv executor_cfg_pair(2) [OF sent(4)] executor_calls_pair(2) [OF sent(4)] by (simp add: calls_inv_def)
qed (use inv in \<open>simp_all add: calls_inv_def\<close>)

text \<open>The invariants hold in every run.\<close>

lemma new_exit_simps:
  "xs_cfg (new_exit limited nano cfg) = cfg" "xs_calls (new_exit limited nano cfg) = []"
  "xs_seqNum (new_exit limited nano cfg) = 0" "xs_sends (new_exit limited nano cfg) = []"
  "exit_counts (new_exit limited nano cfg) = (0, 0, 0)"
  by (simp_all add: new_exit_def NewHTTPExecutor_def exit_WithRateLimiter_def exit_counts_def NewMetrics_def)

lemma conc_start_simps [simp]:
  "cn_exec (conc_start r e) = e" "cn_handlers (conc_start r e) = []" "cn_sent (conc_start r e) = []"
  "cn_count (conc_start r e) = 0" "cn_reasm (conc_start r e) = r" "cn_open (conc_start r e)"
  "\<not> stands (conc_start r e) i h" "\<not> holds (conc_start r e) i j c"
  by (simp_all add: conc_start_def stands_def holds_def)

interpretation conc_replies: invariant "conc_start r (new_exit limited nano cfg)" "conc_step env reasm"
    "\<lambda>s. numbers_inv env s \<and> order_inv env cfg s" for r limited nano cfg env reasm
proof unfold_locales
  show "numbers_inv env (conc_start r (new_exit limited nano cfg)) \<and>
      order_inv env cfg (conc_start r (new_exit limited nano cfg))"
    by (simp add: numbers_inv_def order_inv_def new_exit_simps)
qed (auto intro: numbers_inv_step order_inv_step)

interpretation conc_counts: invariant "conc_start r (new_exit limited nano cfg)" "conc_step env reasm" counts_inv
    for r limited nano cfg env reasm
proof unfold_locales
  show "counts_inv (conc_start r (new_exit limited nano cfg))"
    by (simp add: counts_inv_def new_exit_simps wrap64_def)
qed (rule counts_inv_step)

interpretation conc_calls: invariant "conc_start r (new_exit limited nano cfg)" "conc_step env reasm"
    "calls_inv env cfg" for r limited nano cfg env reasm
proof unfold_locales
  show "calls_inv env cfg (conc_start r (new_exit limited nano cfg))"
    by (simp add: calls_inv_def new_exit_simps)
qed (rule calls_inv_step)

section \<open>Progress\<close>







section \<open>One request after the other\<close>

text \<open>
  The sequential executor against the shared one: they agree on everything but the log and the
  proxy's counters.
\<close>

definition agrees :: "HTTPExecutor \<Rightarrow> HTTPExecutor \<Rightarrow> bool" where
  "agrees e e' \<longleftrightarrow>
     same_sender e e' \<and> xs_cfg e' = xs_cfg e \<and> xs_calls e' = xs_calls e \<and> exit_counts e' = exit_counts e"

lemma agrees_refl [simp]: "agrees e e" by (simp add: agrees_def same_sender_def)

lemma same_sender_take: "same_sender x e \<Longrightarrow> same_sender (take_seq x) (take_seq e)"
  by (simp add: same_sender_def take_seq_def)

lemma same_sender_wait:
  assumes "same_sender x e" "wait_token w e = (ok, e')"
  obtains x' where "wait_token w x = (ok, x')" "same_sender x' e'"
  using assms by (auto simp: same_sender_def wait_token_def split: if_splits)

lemma same_sender_give:
  assumes "same_sender x e" "give_text w t e = (ok, e')"
  obtains x' where "give_text w t x = (ok, x')" "same_sender x' e'"
  using assms by (auto simp: same_sender_def give_text_def)

text \<open>The rest of the executor, and of the state, that one goroutine's sending leaves alone.\<close>

definition same_rest :: "'r conc \<Rightarrow> 'r conc \<Rightarrow> bool" where
  "same_rest s s' \<longleftrightarrow>
     cn_open s' = cn_open s \<and> cn_reasm s' = cn_reasm s \<and> xs_cfg (cn_exec s') = xs_cfg (cn_exec s) \<and>
     xs_calls (cn_exec s') = xs_calls (cn_exec s) \<and> exit_counts (cn_exec s') = exit_counts (cn_exec s)"

lemma same_rest_refl [simp]: "same_rest s s" by (simp add: same_rest_def)

lemma same_rest_trans: "same_rest s s' \<Longrightarrow> same_rest s' s'' \<Longrightarrow> same_rest s s''" by (simp add: same_rest_def)

lemma handlers_set: "stands s i h0 \<Longrightarrow> cn_handlers t = cn_handlers s \<Longrightarrow> stands (set_handler i h t) i h"
  by (simp add: stands_def set_handler_def)

text \<open>One chunk of the loop of \<^verbatim>\<open>sendFrame\<close>: numbered, encoded, waited for, sent.\<close>

definition send_one :: "exit_env \<Rightarrow> exit_world \<Rightarrow> frame \<Rightarrow> HTTPExecutor \<Rightarrow> send_error err \<times> HTTPExecutor" where
  "send_one env w c e = send_chunks env w [c] e"

lemma send_chunks_one:
  "send_chunks env w (c # cs) e =
     (case send_one env w c e of (None, e') \<Rightarrow> send_chunks env w cs e' | (Some err, e') \<Rightarrow> (Some err, e'))"
  by (auto simp: send_one_def Let_def split: option.split prod.split bool.split)

text \<open>\<open>reaches s s' i h e\<close>: some steps lead from \<open>s\<close> to \<open>s'\<close>, where \<open>i\<close> stands at \<open>h\<close> and sending has come to \<open>e\<close>.\<close>

definition reaches ::
  "exit_env \<Rightarrow> ('r \<Rightarrow> frame \<Rightarrow> frame option \<times> 'r) \<Rightarrow> 'r conc \<Rightarrow> 'r conc \<Rightarrow> nat \<Rightarrow> handler \<Rightarrow> HTTPExecutor \<Rightarrow> bool"
where
  "reaches env reasm s s' i h e \<longleftrightarrow>
     reach s (conc_step env reasm) s' \<and> same_rest s s' \<and> same_sender (cn_exec s') e \<and>
     cn_handlers s' = (cn_handlers s)[i := h]"

lemma reaches_step:
  assumes "reaches env reasm s s1 i h1 e1" "conc_step env reasm s1 s2"
    and "s2 = set_handler i h2 t" "cn_handlers t = cn_handlers s1" "cn_open t = cn_open s1" "cn_reasm t = cn_reasm s1"
    and "same_core (cn_exec s1) (cn_exec t)" "same_sender (cn_exec t) e2"
  shows "reaches env reasm s s2 i h2 e2"
  using assms by (auto simp: reaches_def same_rest_def same_core_def exit_counts_def set_handler_def
      intro: reach_step)

lemma reaches_stands: "reaches env reasm s s' i h e \<Longrightarrow> i < length (cn_handlers s) \<Longrightarrow> stands s' i h"
  by (simp add: reaches_def stands_def)

lemma send_one_steps:
  assumes st: "stands s i (Chunks fr r (c # cs))" and agree: "same_sender (cn_exec s) e"
    and one: "send_one env w c e = (err, e')"
  shows "\<exists>s'. reaches env reasm s s' i (if err = None then Chunks fr r cs else Stopped fr r False) e'"
proof -
  note i = stands_length [OF st]
  let ?e1 = "take_seq e"
  define c' where "c' = c\<lparr>fr_SeqNum := xs_seqNum (take_seq (cn_exec s))\<rparr>"
  have c': "c\<lparr>fr_SeqNum := xs_seqNum e + 1\<rparr> = c'" using agree by (simp add: c'_def same_sender_def)
  let ?t1 = "s\<lparr>cn_count := Suc (cn_count s), cn_exec := take_seq (cn_exec s)\<rparr>"
  let ?h1 = "Holding False fr r (Suc (cn_count s)) c' cs"
  have "reaches env reasm s s i (Chunks fr r (c # cs)) e"
    using agree st list_update_id [of "cn_handlers s" i] by (auto simp: reaches_def stands_def intro: reach_start)
  then have 1: "reaches env reasm s (set_handler i ?h1 ?t1) i ?h1 ?e1"
    by (rule reaches_step [OF _ conc_step.numbered [OF st c'_def] refl])
      (use same_sender_take [OF agree] in simp_all)
  define s1 where "s1 = set_handler i ?h1 ?t1"
  note 1 = 1 [folded s1_def] and h1 = reaches_stands [OF 1 [folded s1_def] i]
  show ?thesis
  proof (cases "xe_encode env c'")
    case None
    have "reaches env reasm s (set_handler i (Stopped fr r False) s1) i (Stopped fr r False) ?e1"
      by (rule reaches_step [OF 1 conc_step.not_encoded [OF h1 None] refl])
        (use 1 in \<open>simp_all add: reaches_def\<close>)
    then show ?thesis using one None by (auto simp: send_one_def c' Let_def)
  next
    case (Some t)
    obtain ok e2 where e2: "wait_token w ?e1 = (ok, e2)" by fastforce
    obtain x2 where x2: "wait_token w (cn_exec s1) = (ok, x2)" "same_sender x2 e2"
      using same_sender_wait [OF _ e2, of "cn_exec s1"] 1 by (auto simp: reaches_def)
    let ?h2 = "if ok then Holding True fr r (Suc (cn_count s)) c' cs else Stopped fr r False"
    define s2 where "s2 = set_handler i ?h2 (s1\<lparr>cn_exec := x2\<rparr>)"
    have 2: "reaches env reasm s s2 i ?h2 e2"
      unfolding s2_def by (rule reaches_step [OF 1 conc_step.waited [OF h1 _ x2(1)] refl])
        (use x2 wait_token_simps [OF x2(1)] Some in simp_all)
    show ?thesis
    proof (cases ok)
      case False
      then show ?thesis using one 2 Some e2 by (auto simp: send_one_def c' Let_def)
    next
      case True
      obtain ok' e3 where e3: "give_text w t e2 = (ok', e3)" by fastforce
      obtain x3 where x3: "give_text w t (cn_exec s2) = (ok', x3)" "same_sender x3 e3"
        using same_sender_give [OF _ e3, of "cn_exec s2"] 2 by (auto simp: reaches_def)
      let ?h3 = "if ok' then Chunks fr r cs else Stopped fr r False"
      have h2: "stands s2 i (Holding True fr r (Suc (cn_count s)) c' cs)"
        using reaches_stands [OF 2 i] True by simp
      have "reaches env reasm s (set_handler i ?h3
          (s2\<lparr>cn_exec := x3, cn_sent := cn_sent s2 @ [(i, Suc (cn_count s), c')]\<rparr>)) i ?h3 e3"
        by (rule reaches_step [OF 2 conc_step.sent [OF h2 _ x3(1)] refl])
          (use x3 give_text_simps [OF x3(1)] Some in simp_all)
      then show ?thesis using one True Some e2 e3 by (auto simp: send_one_def c' Let_def split: if_splits)
    qed
  qed
qed

text \<open>The loop of \<^verbatim>\<open>sendFrame\<close> as steps of one goroutine.\<close>

lemma send_chunks_steps:
  "stands s i (Chunks fr r cs) \<Longrightarrow> same_sender (cn_exec s) e \<Longrightarrow>
     \<exists>s'. reaches env reasm s s' i (Stopped fr r (fst (send_chunks env w cs e) = None))
       (snd (send_chunks env w cs e))"
proof (induction cs arbitrary: s e)
  case Nil
  have "conc_step env reasm s (set_handler i (Stopped fr r True) s)" by (rule conc_step.all_sent [OF Nil(1)])
  then show ?case using Nil(2)
    by (intro exI [of _ "set_handler i (Stopped fr r True) s"])
      (auto intro: reach.intros simp: reaches_def same_rest_def set_handler_def)
next
  case (Cons c cs)
  obtain err e1 where one: "send_one env w c e = (err, e1)" by fastforce
  obtain s1 where s1: "reaches env reasm s s1 i (if err = None then Chunks fr r cs else Stopped fr r False) e1"
    using send_one_steps [OF Cons.prems one] by blast
  show ?case
  proof (cases err)
    case None
    then have "stands s1 i (Chunks fr r cs)" using reaches_stands [OF s1 stands_length [OF Cons.prems(1)]] by simp
    with Cons.IH [of s1 e1] s1 obtain s2 where
      "reaches env reasm s1 s2 i (Stopped fr r (fst (send_chunks env w cs e1) = None)) (snd (send_chunks env w cs e1))"
      by (auto simp: reaches_def)
    then have "reaches env reasm s s2 i (Stopped fr r (fst (send_chunks env w cs e1) = None)) (snd (send_chunks env w cs e1))"
      using s1 by (auto simp: reaches_def intro: reach_trans same_rest_trans)
    then show ?thesis using None by (auto simp: send_chunks_one one simp del: send_chunks.simps(2))
  next
    case (Some x)
    then show ?thesis using s1 by (auto simp: send_chunks_one one simp del: send_chunks.simps(2))
  qed
qed

text \<open>A whole request, from its message to the end of its goroutine, as steps.\<close>

lemma handleRequest_steps:
  assumes msg: "cn_open s" "xe_decode env t = Some part" "reasm (cn_reasm s) part = (Some fr, r')"
    and agree: "agrees (cn_exec s) e"
  shows "\<exists>s' rp ok. reach s (conc_step env reasm) s' \<and> cn_open s' \<and> cn_reasm s' = r' \<and>
    agrees (cn_exec s') (handleRequest env w fr e) \<and> cn_handlers s' = cn_handlers s @ [Ended fr rp ok]"
proof -
  define rp where "rp = decide env (Policy (xs_cfg e)) (xw_Do w (length (xs_calls e))) fr"
  let ?cs = "xe_chunk env (reply_frame env fr rp)" and ?i = "length (cn_handlers s)"
  obtain e1 where e1: "same_sender e e1" "same_sender (snd (send_chunks env w ?cs e1)) (handleRequest env w fr e)"
    "exit_counts (handleRequest env w fr e) = counted rp (fst (send_chunks env w ?cs e1)) (exit_counts e)"
    and he: "xs_cfg (handleRequest env w fr e) = xs_cfg e"
      "xs_calls (handleRequest env w fr e) = xs_calls (note_call env fr e)"
    using handleRequest_answers [of env w fr e] by (auto simp: answers_def sendFrame_def rp_def note_call_def)
  define ok where "ok \<longleftrightarrow> fst (send_chunks env w ?cs e1) = None"
  define s1 where "s1 = s\<lparr>cn_reasm := r', cn_handlers := cn_handlers s @ [Spawned fr]\<rparr>"
  define s2 where "s2 = set_handler ?i (Deciding fr) (s1\<lparr>cn_exec := count_ExitRequests (cn_exec s1)\<rparr>)"
  define s3 where "s3 = set_handler ?i (Chunks fr rp ?cs) (s2\<lparr>cn_exec := note_call env fr (cn_exec s2)\<rparr>)"
  have st: "stands s1 ?i (Spawned fr)" "stands s2 ?i (Deciding fr)" "stands s3 ?i (Chunks fr rp ?cs)"
    by (auto simp: s3_def s2_def s1_def stands_def set_handler_def nth_append)
  have "conc_step env reasm s s1" unfolding s1_def by (rule conc_step.received) (rule msg)+
  moreover have "conc_step env reasm s1 s2" unfolding s2_def by (rule conc_step.counted [OF st(1)])
  moreover have "conc_step env reasm s2 s3"
    unfolding s3_def by (rule conc_step.decided [OF st(2), where do = "xw_Do w (length (xs_calls e))"])
      (use agree in \<open>simp add: rp_def s2_def s1_def agrees_def\<close>)
  ultimately have reach3: "reach s (conc_step env reasm) s3" by (blast intro: reach_one reach_step)
  have x3: "same_sender (cn_exec s3) e1" "xs_cfg (cn_exec s3) = xs_cfg e"
    "xs_calls (cn_exec s3) = xs_calls (note_call env fr e)" "cn_open s3" "cn_reasm s3 = r'"
    "exit_counts (cn_exec s3) = (case exit_counts e of (q, p, x) \<Rightarrow> (incr q, p, x))"
    "cn_handlers s3 = cn_handlers s @ [Chunks fr rp ?cs]"
    using agree e1(1) msg(1)
    by (simp_all add: s3_def s2_def s1_def agrees_def same_sender_def note_call_def)
      (simp_all add: executor_updates set_handler_def exit_counts_def)
  obtain s4 where s4: "reaches env reasm s3 s4 ?i (Stopped fr rp ok) (snd (send_chunks env w ?cs e1))"
    using send_chunks_steps [OF st(3) x3(1)] unfolding ok_def by blast
  define s5 where "s5 = set_handler ?i (Ended fr rp ok) (s4\<lparr>cn_exec := count_end rp ok (cn_exec s4)\<rparr>)"
  have "stands s4 ?i (Stopped fr rp ok)" using reaches_stands [OF s4] x3(7) by simp
  then have "conc_step env reasm s4 s5" unfolding s5_def by (rule conc_step.ended)
  then have "reach s (conc_step env reasm) s5"
    using s4 reach3 by (auto simp: reaches_def intro: reach_step reach_trans)
  moreover have "cn_handlers s5 = cn_handlers s @ [Ended fr rp ok]" "cn_open s5" "cn_reasm s5 = r'"
    using s4 x3 by (simp_all add: s5_def reaches_def same_rest_def set_handler_def)
  moreover have "agrees (cn_exec s5) (handleRequest env w fr e)"
  proof -
    have "same_sender (cn_exec s5) (cn_exec s4)"
      by (simp add: s5_def count_end_def same_sender_def executor_updates split: reply.split)
    then have "same_sender (cn_exec s5) (handleRequest env w fr e)"
      using s4 e1(2) by (simp add: reaches_def same_sender_def)
    moreover have "exit_counts (cn_exec s5) = exit_counts (handleRequest env w fr e)"
      using s4 x3(6) unfolding e1(3)
      by (cases "exit_counts e"; cases rp) (simp_all add: s5_def reaches_def same_rest_def counted_def ok_def)
    ultimately show ?thesis
      using s4 x3 he by (simp add: agrees_def s5_def reaches_def same_rest_def)
  qed
  ultimately show ?thesis by blast
qed


section \<open>Properties\<close>

lemma numbers_distinct:
  assumes "numbers_inv env s" "cn_count s < 2 ^ 32"
  shows "distinct (map (\<lambda>(i, j, c). fr_SeqNum c) (cn_sent s))"
proof -
  let ?js = "map (\<lambda>(i, j, c). j) (cn_sent s)"
  have "map (\<lambda>(i, j, c). fr_SeqNum c) (cn_sent s) = map of_nat ?js"
    using assms(1) by (auto simp: numbers_inv_def)
  moreover have "inj_on (of_nat :: nat \<Rightarrow> 32 word) (set ?js)"
    by (rule inj_on_subset [OF inj_of_nat32]) (use assms in \<open>auto simp: numbers_inv_def\<close>)
  ultimately show ?thesis using assms(1) by (simp add: numbers_inv_def distinct_map del: map_map)
qed

text \<open>
  C2: replies under concurrency. However the goroutines of the exit node interleave and whatever
  fails, every text it has sent is the encoding of a chunk numbered with its count, two chunks never
  share a sequence number before the 32-bit counter wraps, and every goroutine that has returned sent
  its own chunks under increasing counts: those of exactly one reply to its request, in order, all of
  them when its sending succeeded and the first ones otherwise.
\<close>

theorem concurrent_replies:
  assumes "conc_run env reasm r (new_exit limited nano cfg) s"
  shows "xs_sends (cn_exec s) = map (\<lambda>(i, j, c). the (xe_encode env c)) (cn_sent s) \<and>
    (\<forall>(i, j, c) \<in> set (cn_sent s). i < length (cn_handlers s) \<and> fr_SeqNum c = of_nat j) \<and>
    (cn_count s < 2 ^ 32 \<longrightarrow> distinct (map (\<lambda>(i, j, c). fr_SeqNum c) (cn_sent s))) \<and>
    (\<forall>i fr rp ok. stands s i (Ended fr rp ok) \<longrightarrow>
       sent_of_reply env (Policy cfg) fr rp ok (own s i) \<and> sorted_wrt (<) (map fst (own s i)))"
proof -
  have inv: "numbers_inv env s" "order_inv env cfg s"
    using conc_replies.always [OF assms [unfolded conc_run_def]] by simp_all
  have "sent_of_reply env (Policy cfg) fr rp ok (own s i) \<and> sorted_wrt (<) (map fst (own s i))"
    if "stands s i (Ended fr rp ok)" for i fr rp ok
    using inv(2) that unfolding order_inv_def by force
  then show ?thesis
    using inv(1) numbers_distinct [OF inv(1)] by (auto simp: numbers_inv_def)
qed

text \<open>
  C7: the outbound policy under concurrency. In every interleaving each request handed to the HTTP
  client had a URL the policy allows, was well formed and carried none of the hop-by-hop headers.
\<close>

theorem concurrent_outbound_policed:
  assumes "conc_run env reasm r (new_exit limited nano cfg) s" and "oq \<in> set (xs_calls (cn_exec s))"
  shows "CheckRequest (xe_policy env) (Policy cfg) (oq_URL oq) = None \<and>
    NewRequest_ok (oq_Method oq) (oq_URL oq) \<and>
    (\<forall>h \<in> set hopByHopHeaders. Header_Values (oq_Header oq) h = [])"
proof -
  have "calls_inv env cfg s" using conc_calls.always [OF assms(1) [unfolded conc_run_def]] by simp
  then obtain fr req where "accepted env (Policy cfg) fr = Some req" "oq = outbound req"
    using assms(2) by (auto simp: calls_inv_def)
  then show ?thesis using accepted_outbound by simp
qed

text \<open>
  C23: no request is lost or counted twice. In every interleaving the three atomic counters of the exit
  node are, as 64-bit numbers, the numbers of goroutines past their first action, of those that
  returned after relaying a whole response, and of those that returned after a refusal; once all have
  returned, the first is the sum of the others and of the responses whose sending failed.
\<close>

theorem concurrent_counters:
  assumes "conc_run env reasm r (new_exit limited nano cfg) s"
  shows "exit_counts (cn_exec s) =
      (wrap64 (int (how_many has_counted (cn_handlers s))),
       wrap64 (int (how_many has_relayed (cn_handlers s))),
       wrap64 (int (how_many has_refused (cn_handlers s)))) \<and>
    ((\<forall>h \<in> set (cn_handlers s). has_returned h) \<longrightarrow>
       how_many has_counted (cn_handlers s) =
         how_many has_relayed (cn_handlers s) + how_many has_refused (cn_handlers s) +
         how_many lost_response (cn_handlers s))"
proof -
  have "counts_inv s" using conc_counts.always [OF assms [unfolded conc_run_def]] by simp
  moreover have "how_many has_counted hs =
      how_many has_relayed hs + how_many has_refused hs + how_many lost_response hs"
    if "\<forall>h \<in> set hs. has_returned h" for hs
    using that
  proof (induction hs)
    case (Cons h hs)
    then have "has_returned h" by simp
    then obtain fr rp ok where "h = Ended fr rp ok" by (cases h) auto
    then show ?case using Cons by (cases rp) (auto simp: lost_response_def)
  qed simp
  ultimately show ?thesis by (simp add: counts_inv_def)
qed



section \<open>A concrete run\<close>

text \<open>Two requests of which the second is handled between the decision of the first and its sending.\<close>

abbreviation demo_reasm :: "unit \<Rightarrow> frame \<Rightarrow> frame option \<times> unit" where
  "demo_reasm \<equiv> \<lambda>r f. (Some f, r)"

lemma demo_conc:
  obtains s rp ok where "conc_run demo_env demo_reasm () (new_exit True 3 demo_cfg) s"
    "cn_handlers s = [Deciding (demo_frame ''q''), Ended (demo_frame ''q'') rp ok]"
    "agrees (cn_exec s) (handleRequest demo_env demo_world (demo_frame ''q'')
       (count_ExitRequests (new_exit True 3 demo_cfg)))"
proof -
  let ?e = "new_exit True 3 demo_cfg" and ?f = "demo_frame ''q''"
  let ?s1 = "(conc_start () ?e)\<lparr>cn_reasm := (), cn_handlers := cn_handlers (conc_start () ?e) @ [Spawned ?f]\<rparr>"
  let ?s2 = "set_handler 0 (Deciding ?f) (?s1\<lparr>cn_exec := count_ExitRequests (cn_exec ?s1)\<rparr>)"
  have msg: "xe_decode demo_env ''q'' = Some ?f" by (simp add: demo_env_def demo_frame_def)
  have 1: "conc_step demo_env demo_reasm (conc_start () ?e) ?s1"
    by (rule conc_step.received [OF _ msg]) simp_all
  have 2: "conc_step demo_env demo_reasm ?s1 ?s2"
    by (rule conc_step.counted) (simp add: stands_def)
  have "\<exists>s' rp ok. reach ?s2 (conc_step demo_env demo_reasm) s' \<and> cn_open s' \<and> cn_reasm s' = () \<and>
      agrees (cn_exec s') (handleRequest demo_env demo_world ?f (cn_exec ?s2)) \<and>
      cn_handlers s' = cn_handlers ?s2 @ [Ended ?f rp ok]"
    by (rule handleRequest_steps [OF _ msg]) simp_all
  then obtain s rp ok where s: "reach ?s2 (conc_step demo_env demo_reasm) s"
    "agrees (cn_exec s) (handleRequest demo_env demo_world ?f (cn_exec ?s2))"
    "cn_handlers s = cn_handlers ?s2 @ [Ended ?f rp ok]" by blast
  have "conc_run demo_env demo_reasm () ?e s"
    unfolding conc_run_def by (rule reach_trans [OF s(1)]) (rule reach_step, rule reach_one, rule 1, rule 2)
  then show ?thesis by (rule that) (use s in \<open>simp_all add: set_handler_def\<close>)
qed

lemma demo_texts:
  assumes "agrees x (handleRequest demo_env demo_world (demo_frame ''q'') (count_ExitRequests (new_exit True 3 demo_cfg)))"
  shows "xs_sends x = [''hi'']" "map oq_URL (xs_calls x) = [''http://h/a'']" "exit_counts x = (2, 1, 0)"
proof -
  let ?e = "count_ExitRequests (new_exit True 3 demo_cfg)" and ?f = "demo_frame ''q''"
  let ?e' = "handleRequest demo_env demo_world ?f ?e"
  have e: "xs_sends ?e = []" "xs_calls ?e = []" "Policy (xs_cfg ?e) = demo_policy" "exit_counts ?e = (1, 0, 0)"
    using demo_policy_cfg
    by (simp_all add: new_exit_simps demo_cfg_def incr_def wrap64_def)
  have do: "xw_Do demo_world n = (\<lambda>_. DoResponse demo_response)" for n by (simp add: demo_world_def)

  obtain req where req: "accepted demo_env demo_policy ?f = Some req" "rr_URL req = ''http://h/a''"
    using demo_accepted by auto
  have ans: "answers demo_env demo_world ?f (Relay demo_rel ''hi'') [outbound req] ?e ?e'"
    using handleRequest_answers [of demo_env demo_world ?f ?e] by (simp only: e do demo_decide req option.case)
  have "xs_sends ?e' = [''hi'']"
    using demo_answer_frame [OF sent_decision [of demo_env demo_world ?e ?f]]
    by (simp only: e do demo_decide) (simp add: reply_frame_def)
  then show "xs_sends x = [''hi'']" using assms by (simp add: agrees_def same_sender_def)
  show "map oq_URL (xs_calls x) = [''http://h/a'']"
    using assms ans req by (simp add: agrees_def answers_def new_exit_simps outbound_def)
  have "fst (sendFrame demo_env demo_world fr e1) = None" for fr e1
    using send_chunks_ok [OF demo_no_failures] by (simp add: sendFrame_def)
  then show "exit_counts x = (2, 1, 0)"
    using assms ans by (auto simp: agrees_def answers_def new_exit_simps counted_def incr_def wrap64_def)
qed

lemma concurrent_replies_witness:
  "\<exists>(s :: unit conc) rp ok. cn_handlers s = [Deciding (demo_frame ''q''), Ended (demo_frame ''q'') rp ok] \<and>
     sent_of_reply demo_env (Policy demo_cfg) (demo_frame ''q'') rp ok (own s 1) \<and>
     [''hi''] = map (\<lambda>(i, j, c). the (xe_encode demo_env c)) (cn_sent s)"
proof -
  obtain s rp ok where s: "conc_run demo_env demo_reasm () (new_exit True 3 demo_cfg) s"
    "cn_handlers s = [Deciding (demo_frame ''q''), Ended (demo_frame ''q'') rp ok]"
    "agrees (cn_exec s) (handleRequest demo_env demo_world (demo_frame ''q'')
       (count_ExitRequests (new_exit True 3 demo_cfg)))" by (rule demo_conc)
  have "stands s 1 (Ended (demo_frame ''q'') rp ok)" by (simp add: stands_def s(2))
  then have "sent_of_reply demo_env (Policy demo_cfg) (demo_frame ''q'') rp ok (own s 1)"
    using concurrent_replies [OF s(1)] by blast
  moreover have "xs_sends (cn_exec s) = map (\<lambda>(i, j, c). the (xe_encode demo_env c)) (cn_sent s)"
    using concurrent_replies [OF s(1)] by (elim conjE)
  ultimately have "cn_handlers s = [Deciding (demo_frame ''q''), Ended (demo_frame ''q'') rp ok] \<and>
     sent_of_reply demo_env (Policy demo_cfg) (demo_frame ''q'') rp ok (own s 1) \<and>
     [''hi''] = map (\<lambda>(i, j, c). the (xe_encode demo_env c)) (cn_sent s)"
    unfolding demo_texts(1) [OF s(3)] by (intro conjI s(2))
  then show ?thesis by (intro exI)
qed

lemma concurrent_outbound_policed_witness:
  "\<exists>(s :: unit conc) oq :: out_request. oq \<in> set (xs_calls (cn_exec s)) \<and> has_returned (cn_handlers s ! 1) \<and>
     CheckRequest (xe_policy demo_env) (Policy demo_cfg) (oq_URL oq) = None \<and> oq_URL oq = ''http://h/a''"
proof -
  obtain s rp ok where s: "conc_run demo_env demo_reasm () (new_exit True 3 demo_cfg) s"
    "cn_handlers s = [Deciding (demo_frame ''q''), Ended (demo_frame ''q'') rp ok]"
    "agrees (cn_exec s) (handleRequest demo_env demo_world (demo_frame ''q'')
       (count_ExitRequests (new_exit True 3 demo_cfg)))" by (rule demo_conc)
  obtain oq where oq: "oq \<in> set (xs_calls (cn_exec s))" "oq_URL oq = ''http://h/a''"
    using demo_texts(2) [OF s(3)] by auto
  show ?thesis
    using concurrent_outbound_policed [OF s(1) oq(1)] oq s(2) by (intro exI [of _ s] exI [of _ oq]) simp
qed

lemma concurrent_counters_witness:
  "\<exists>s :: unit conc. exit_counts (cn_exec s) = (2, 1, 0) \<and> wrap64 (int (how_many has_counted (cn_handlers s))) = 2 \<and>
     length (cn_handlers s) = 2"
proof -
  obtain s rp ok where s: "conc_run demo_env demo_reasm () (new_exit True 3 demo_cfg) s"
    "cn_handlers s = [Deciding (demo_frame ''q''), Ended (demo_frame ''q'') rp ok]"
    "agrees (cn_exec s) (handleRequest demo_env demo_world (demo_frame ''q'')
       (count_ExitRequests (new_exit True 3 demo_cfg)))" by (rule demo_conc)
  show ?thesis using concurrent_counters [OF s(1)] demo_texts(3) [OF s(3)] s(2)
    by (intro exI [of _ s]) simp
qed



end
