(* ===== verification/Proxy_Concurrent.thy ===== *)
theory Proxy_Concurrent
  imports Http_Proxy Interleaving
begin

text \<open>
  The local proxy as it runs: the HTTP server calls the handler in one goroutine per request, and the
  goroutines share the cache, the counters and the relay session. A step is one action of one
  goroutine on the shared proxy, with the local work around it; any interleaving may happen. The
  second part is \<^verbatim>\<open>Serve\<close>, which runs the server beside the relay session.
\<close>

section \<open>The step relation\<close>

text \<open>
  How a request ended: redirected or CONNECT, neither of them counted; refused before the cache;
  answered from the cache; not sent; failed at the relay; relayed.
\<close>

datatype ending = Uncounted | Denied | FromCache Entry | Unsent | RelayTrouble | Relayed proxy_relayResponse

text \<open>
  A goroutine running \<^verbatim>\<open>ServeHTTP\<close>: called; counted, its body read and its URL allowed; answered by
  the cache; missed by it; waiting in \<^verbatim>\<open>SendRequest\<close>; with its response, past the store path;
  returned.
\<close>

datatype stage =
    Called
  | Admitted string
  | Found Entry
  | Missing string
  | Waiting frame
  | Answered proxy_relayResponse
  | Done ending served

record pconc =
  pn_proxy :: HTTPProxy
  pn_calls :: "(call_world \<times> http_request \<times> stage) list"

text \<open>The goroutine \<open>i\<close> is at \<open>st\<close>; it moves to \<open>st\<close> and leaves the proxy as \<open>p\<close>.\<close>

definition call_at :: "pconc \<Rightarrow> nat \<Rightarrow> call_world \<Rightarrow> http_request \<Rightarrow> stage \<Rightarrow> bool" where
  "call_at s i w r st \<longleftrightarrow> i < length (pn_calls s) \<and> pn_calls s ! i = (w, r, st)"

definition move :: "nat \<Rightarrow> call_world \<Rightarrow> http_request \<Rightarrow> stage \<Rightarrow> HTTPProxy \<Rightarrow> pconc \<Rightarrow> pconc" where
  "move i w r st p s = \<lparr>pn_proxy = p, pn_calls = (pn_calls s)[i := (w, r, st)]\<rparr>"

text \<open>The reply a handler has written, with its writer when it does not panic.\<close>

definition replied :: "response_writer option \<Rightarrow> served" where
  "replied rw = Handled (map_option finish rw)"

definition count_written :: "response_writer option \<Rightarrow> HTTPProxy \<Rightarrow> HTTPProxy" where
  "count_written rw p = (if rw = None then p else count_ProxyResponses p)"

definition unclean :: "http_request \<Rightarrow> bool" where
  "unclean r \<longleftrightarrow> rq_Method r \<noteq> ''CONNECT'' \<and> cleanPath (rq_EscapedPath r) \<noteq> rq_EscapedPath r"

inductive pconc_step :: "proxy_env \<Rightarrow> pconc \<Rightarrow> pconc \<Rightarrow> bool" for env where
  arrived:
    "request_wf r \<Longrightarrow> pconc_step env s (s\<lparr>pn_calls := pn_calls s @ [(w, r, Called)]\<rparr>)"
| redirected:
    "call_at s i w r Called \<Longrightarrow> unclean r \<Longrightarrow>
     pconc_step env s (move i w r (Done Uncounted (Redirected (cleanPath (rq_EscapedPath r)))) (pn_proxy s) s)"
| connect:
    "call_at s i w r Called \<Longrightarrow> rq_Method r = ''CONNECT'' \<Longrightarrow>
     pconc_step env s (move i w r (Done Uncounted (replied
       (http_Error ''HTTPS CONNECT tunnelling is not supported by chunkbridge'' 501 (writer_for r)))) (pn_proxy s) s)"
| unread:
    "call_at s i w r Called \<Longrightarrow> \<not> unclean r \<Longrightarrow> rq_Method r \<noteq> ''CONNECT'' \<Longrightarrow> read_body r = None \<Longrightarrow>
     pconc_step env s (move i w r (Done Denied (replied
       (http_Error ''failed to read request body'' 400 (writer_for r)))) (count_ProxyRequests (pn_proxy s)) s)"
| denied:
    "call_at s i w r Called \<Longrightarrow> \<not> unclean r \<Longrightarrow> rq_Method r \<noteq> ''CONNECT'' \<Longrightarrow> read_body r = Some bdy \<Longrightarrow>
     CheckRequest (ye_policy env) (Policy (px_cfg (pn_proxy s))) (target_url r) = Some err \<Longrightarrow>
     pconc_step env s (move i w r (Done Denied (replied
         (http_Error (''policy: '' @ ye_error_text env err) 403 (writer_for r))))
       (proxy_log (log_Warn ''proxy: policy denied'' [''url'', target_url r]) (count_ProxyRequests (pn_proxy s))) s)"
| admitted:
    "call_at s i w r Called \<Longrightarrow> \<not> unclean r \<Longrightarrow> passes env (px_cfg (pn_proxy s)) r bdy \<Longrightarrow>
     pconc_step env s (move i w r (Admitted bdy) (count_ProxyRequests (pn_proxy s)) s)"
| looked_up:
    "call_at s i w r (Admitted bdy) \<Longrightarrow> lookup_cached w r (pn_proxy s) = (found, p) \<Longrightarrow>
     pconc_step env s (move i w r (case found of Some entry \<Rightarrow> Found entry | None \<Rightarrow> Missing bdy) p s)"
| hit_written:
    "call_at s i w r (Found entry) \<Longrightarrow> rw = write_hit r entry (writer_for r) \<Longrightarrow>
     pconc_step env s (move i w r (Done (FromCache entry) (replied rw)) (count_written rw (pn_proxy s)) s)"
| unmarshallable:
    "call_at s i w r (Missing bdy) \<Longrightarrow> ye_marshal env (relay_request r bdy) = None \<Longrightarrow>
     pconc_step env s (move i w r (Done Unsent (replied (http_Error ''internal error'' 500 (writer_for r))))
       (pn_proxy s) s)"
| requested:
    "call_at s i w r (Missing bdy) \<Longrightarrow> ye_marshal env (relay_request r bdy) = Some payload \<Longrightarrow>
     fr = the_frame w (pn_proxy s) payload \<Longrightarrow>
     pconc_step env s (move i w r (Waiting fr) ((pn_proxy s)
       \<lparr>px_frames := px_frames (pn_proxy s) @ [(fr, requestTimeout (pn_proxy s))]\<rparr>) s)"
| relay_failed:
    "call_at s i w r (Waiting fr) \<Longrightarrow> yw_relay w fr (requestTimeout (pn_proxy s)) = failure \<Longrightarrow>
     (\<nexists>a. failure = RelayAnswer a) \<Longrightarrow> relay_failure failure = (msg, st) \<Longrightarrow>
     pconc_step env s (move i w r (Done RelayTrouble (replied (http_Error msg st (writer_for r))))
       (proxy_log (log_Error ''proxy: relay error'' []) (count_ProxyErrors (pn_proxy s))) s)"
| unreadable:
    "call_at s i w r (Waiting fr) \<Longrightarrow> yw_relay w fr (requestTimeout (pn_proxy s)) = RelayAnswer a \<Longrightarrow>
     ye_unmarshal env a = None \<Longrightarrow>
     pconc_step env s (move i w r (Done RelayTrouble (replied
       (http_Error ''invalid response from exit'' 502 (writer_for r)))) (count_ProxyErrors (pn_proxy s)) s)"
| answered:
    "call_at s i w r (Waiting fr) \<Longrightarrow> yw_relay w fr (requestTimeout (pn_proxy s)) = RelayAnswer a \<Longrightarrow>
     ye_unmarshal env a = Some resp \<Longrightarrow>
     pconc_step env s (move i w r (Answered resp) (store_response env w r resp (pn_proxy s)) s)"
| miss_written:
    "call_at s i w r (Answered resp) \<Longrightarrow>
     rw = write_miss (px_cache (pn_proxy s) \<noteq> None) resp (writer_for r) \<Longrightarrow>
     pconc_step env s (move i w r (Done (Relayed resp) (replied rw)) (count_written rw (pn_proxy s)) s)"

definition pconc_start :: "HTTPProxy \<Rightarrow> pconc" where
  "pconc_start p = \<lparr>pn_proxy = p, pn_calls = []\<rparr>"


section \<open>What every goroutine has\<close>

text \<open>The requests so far.\<close>

definition requests :: "pconc \<Rightarrow> (call_world \<times> http_request) list" where
  "requests s = map (\<lambda>(w, r, st). (w, r)) (pn_calls s)"

text \<open>
  \<open>hit_from\<close>: the entry repeats what the relay answered to one of the requests, one with the same
  method, URL and \<open>Accept-Encoding\<close>, and was fresh when it was looked up.
\<close>

definition hit_from ::
  "proxy_env \<Rightarrow> Config \<Rightarrow> (call_world \<times> http_request) list \<Rightarrow> (frame \<times> int) list \<Rightarrow>
   call_world \<Rightarrow> http_request \<Rightarrow> Entry \<Rightarrow> bool"
where
  "hit_from env cfg calls frs w r entry \<longleftrightarrow>
     IsRequestCacheable r (request_options cfg) \<and>
     (\<exists>w0 r0 resp. (w0, r0) \<in> set calls \<and> answered_by env cfg frs w0 r0 resp \<and> storable env cfg w0 r0 resp \<and>
        rq_Method r0 = rq_Method r \<and> target_url r0 = target_url r \<and>
        Header_Get (rq_Header r0) ''Accept-Encoding'' = Header_Get (rq_Header r) ''Accept-Encoding'' \<and>
        en_StatusCode entry = ps_StatusCode resp \<and> en_Header entry = ps_Headers resp \<and>
        en_Body entry = ps_Body resp \<and> yw_getNow w \<le> yw_putNow w0 + response_ttl env cfg w0 r0 resp)"

text \<open>The reply a request may have been given, by how it ended.\<close>

fun ending_ok ::
  "proxy_env \<Rightarrow> Config \<Rightarrow> bool \<Rightarrow> (call_world \<times> http_request) list \<Rightarrow> (frame \<times> int) list \<Rightarrow>
   call_world \<Rightarrow> http_request \<Rightarrow> ending \<Rightarrow> served \<Rightarrow> bool"
where
  "ending_ok env cfg caching calls frs w r Uncounted reply \<longleftrightarrow>
     unclean r \<and> reply = Redirected (cleanPath (rq_EscapedPath r)) \<or>
     rq_Method r = ''CONNECT'' \<and> (\<exists>msg. reply = replied (http_Error msg 501 (writer_for r)))"
| "ending_ok env cfg caching calls frs w r Denied reply \<longleftrightarrow>
     (\<nexists>bdy. passes env cfg r bdy) \<and>
     (\<exists>msg code. (code = 400 \<or> code = 403) \<and> reply = replied (http_Error msg code (writer_for r)))"
| "ending_ok env cfg caching calls frs w r (FromCache entry) reply \<longleftrightarrow>
     hit_from env cfg calls frs w r entry \<and> reply = replied (write_hit r entry (writer_for r))"
| "ending_ok env cfg caching calls frs w r Unsent reply \<longleftrightarrow>
     reply = replied (http_Error ''internal error'' 500 (writer_for r))"
| "ending_ok env cfg caching calls frs w r RelayTrouble reply \<longleftrightarrow>
     (\<exists>fr t. (fr, t) \<in> set frs \<and>
        ((\<exists>a. yw_relay w fr t = RelayAnswer a \<and> ye_unmarshal env a = None \<and>
            reply = replied (http_Error ''invalid response from exit'' 502 (writer_for r))) \<or>
         (\<exists>msg st. (\<nexists>a. yw_relay w fr t = RelayAnswer a) \<and> relay_failure (yw_relay w fr t) = (msg, st) \<and>
            reply = replied (http_Error msg st (writer_for r)))))"
| "ending_ok env cfg caching calls frs w r (Relayed resp) reply \<longleftrightarrow>
     answered_by env cfg frs w r resp \<and> reply = replied (write_miss caching resp (writer_for r))"

fun stage_ok ::
  "proxy_env \<Rightarrow> Config \<Rightarrow> bool \<Rightarrow> (call_world \<times> http_request) list \<Rightarrow> (frame \<times> int) list \<Rightarrow>
   call_world \<Rightarrow> http_request \<Rightarrow> stage \<Rightarrow> bool"
where
  "stage_ok env cfg caching calls frs w r Called \<longleftrightarrow> True"
| "stage_ok env cfg caching calls frs w r (Admitted bdy) \<longleftrightarrow> passes env cfg r bdy"
| "stage_ok env cfg caching calls frs w r (Found entry) \<longleftrightarrow> hit_from env cfg calls frs w r entry"
| "stage_ok env cfg caching calls frs w r (Missing bdy) \<longleftrightarrow> passes env cfg r bdy"
| "stage_ok env cfg caching calls frs w r (Waiting fr) \<longleftrightarrow>
     (\<exists>t bdy. (fr, t) \<in> set frs \<and> passes env cfg r bdy \<and>
        ye_marshal env (relay_request r bdy) = Some (fr_Payload fr))"
| "stage_ok env cfg caching calls frs w r (Answered resp) \<longleftrightarrow> answered_by env cfg frs w r resp"
| "stage_ok env cfg caching calls frs w r (Done en reply) \<longleftrightarrow> ending_ok env cfg caching calls frs w r en reply"

lemma answered_by_mono:
  "answered_by env cfg frs w r resp \<Longrightarrow> set frs \<subseteq> set frs' \<Longrightarrow> answered_by env cfg frs' w r resp"
  unfolding answered_by_def by blast

lemma hit_from_mono:
  assumes "hit_from env cfg calls frs w r entry" "set calls \<subseteq> set calls'" "set frs \<subseteq> set frs'"
  shows "hit_from env cfg calls' frs' w r entry"
proof -
  obtain w0 r0 resp where o: "(w0, r0) \<in> set calls" "answered_by env cfg frs w0 r0 resp"
    "storable env cfg w0 r0 resp" "rq_Method r0 = rq_Method r" "target_url r0 = target_url r"
    "Header_Get (rq_Header r0) ''Accept-Encoding'' = Header_Get (rq_Header r) ''Accept-Encoding''"
    "en_StatusCode entry = ps_StatusCode resp" "en_Header entry = ps_Headers resp" "en_Body entry = ps_Body resp"
    "yw_getNow w \<le> yw_putNow w0 + response_ttl env cfg w0 r0 resp" and c: "IsRequestCacheable r (request_options cfg)"
    using assms(1) unfolding hit_from_def by blast
  then have "(w0, r0) \<in> set calls'" "answered_by env cfg frs' w0 r0 resp"
    using assms(2,3) answered_by_mono by blast+
  with o c show ?thesis unfolding hit_from_def by blast
qed

lemma ending_ok_mono:
  assumes "ending_ok env cfg b calls frs w r en reply" "set calls \<subseteq> set calls'" "set frs \<subseteq> set frs'"
  shows "ending_ok env cfg b calls' frs' w r en reply"
proof (cases en)
  case RelayTrouble
  then show ?thesis using assms by (simp only: ending_ok.simps) blast
qed (use assms hit_from_mono answered_by_mono in \<open>auto 0 3\<close>)

lemma stage_ok_mono:
  assumes "stage_ok env cfg b calls frs w r st" "set calls \<subseteq> set calls'" "set frs \<subseteq> set frs'"
  shows "stage_ok env cfg b calls' frs' w r st"
proof (cases st)
  case (Waiting fr)
  then show ?thesis using assms by (simp only: stage_ok.simps) blast
qed (use assms hit_from_mono answered_by_mono ending_ok_mono in \<open>auto 0 3\<close>)

section \<open>The invariant\<close>

definition pconc_inv :: "proxy_env \<Rightarrow> Config \<Rightarrow> cache_config \<Rightarrow> bool \<Rightarrow> pconc \<Rightarrow> bool" where
  "pconc_inv env cfg ccfg caching s \<longleftrightarrow>
     proxy_inv env cfg ccfg (requests s) (pn_proxy s) \<and> (px_cache (pn_proxy s) \<noteq> None \<longleftrightarrow> caching) \<and>
     (\<forall>(w, r) \<in> set (requests s). request_wf r) \<and>
     (\<forall>(w, r, st) \<in> set (pn_calls s).
        stage_ok env cfg caching (requests s) (px_frames (pn_proxy s)) w r st)"

lemma requests_move:
  assumes "call_at s i w r st0" shows "requests (move i w r st p s) = requests s"
proof -
  have "(requests s)[i := (w, r)] = requests s"
    using assms list_update_id [of "requests s" i] by (simp add: requests_def call_at_def)
  then show ?thesis by (simp add: requests_def move_def map_update)
qed

lemma move_simps [simp]: "pn_proxy (move i w r st p s) = p" "pn_calls (move i w r st p s) = (pn_calls s)[i := (w, r, st)]"
  by (simp_all add: move_def)

lemma call_at_request: "call_at s i w r st \<Longrightarrow> (w, r) \<in> set (requests s)"
  by (force simp: call_at_def requests_def in_set_conv_nth)

lemma call_at_ok:
  assumes "pconc_inv env cfg ccfg b s" "call_at s i w r st"
  shows "stage_ok env cfg b (requests s) (px_frames (pn_proxy s)) w r st"
proof -
  have "(w, r, st) \<in> set (pn_calls s)" using assms(2) by (auto simp: call_at_def in_set_conv_nth)
  then show ?thesis using assms(1) by (auto simp: pconc_inv_def)
qed

text \<open>A goroutine moves, and leaves the proxy with an invariant of its own.\<close>

lemma pconc_inv_move:
  assumes inv: "pconc_inv env cfg ccfg b s" and at: "call_at s i w r st0"
    and p: "proxy_inv env cfg ccfg (requests s) p" "px_cache p = None \<longleftrightarrow> px_cache (pn_proxy s) = None"
      "set (px_frames (pn_proxy s)) \<subseteq> set (px_frames p)"
    and st: "stage_ok env cfg b (requests s) (px_frames p) w r st"
  shows "pconc_inv env cfg ccfg b (move i w r st p s)"
proof -
  have "stage_ok env cfg b (requests s) (px_frames p) w' r' st'"
    if c: "(w', r', st') \<in> set ((pn_calls s)[i := (w, r, st)])" for w' r' st'
  proof -
    consider "(w', r', st') = (w, r, st)" | "(w', r', st') \<in> set (pn_calls s)"
      using set_update_subset_insert [of "pn_calls s" i "(w, r, st)"] c by blast
    then show ?thesis
    proof cases
      case 2
      then have "stage_ok env cfg b (requests s) (px_frames (pn_proxy s)) w' r' st'"
        using inv by (auto simp: pconc_inv_def)
      then show ?thesis by (rule stage_ok_mono [OF _ subset_refl p(3)])
    qed (use st in simp)
  qed
  then have "\<forall>(w', r', st') \<in> set ((pn_calls s)[i := (w, r, st)]).
      stage_ok env cfg b (requests s) (px_frames p) w' r' st'" by blast
  then show ?thesis
    using inv p(1,2) by (simp add: pconc_inv_def requests_move [OF at])
qed

text \<open>The same when only the counters and the log change.\<close>

lemma pconc_inv_count:
  assumes "pconc_inv env cfg ccfg b s" "call_at s i w r st0"
    and "px_cfg p = px_cfg (pn_proxy s)" "px_frames p = px_frames (pn_proxy s)" "px_cache p = px_cache (pn_proxy s)"
    and "stage_ok env cfg b (requests s) (px_frames (pn_proxy s)) w r st"
  shows "pconc_inv env cfg ccfg b (move i w r st p s)"
proof (rule pconc_inv_move [OF assms(1,2)])
  show "proxy_inv env cfg ccfg (requests s) p"
    using assms(1) by (intro proxy_inv_grow [OF _ subset_refl assms(3-5)]) (simp add: pconc_inv_def)
qed (use assms in simp_all)

lemma count_written_keeps [simp]:
  "px_cfg (count_written rw p) = px_cfg p" "px_frames (count_written rw p) = px_frames p"
  "px_cache (count_written rw p) = px_cache p"
  by (simp_all add: count_written_def)

lemma lookup_presence: "lookup_cached w r p = (found, p') \<Longrightarrow> px_cache p' = None \<longleftrightarrow> px_cache p = None"
  by (auto simp: lookup_cached_def split: option.splits if_splits prod.splits)

lemma store_presence: "px_cache (store_response env w r resp p) = None \<longleftrightarrow> px_cache p = None"
  by (simp add: store_response_def split: option.splits)

text \<open>The lookup: what is found was relayed before.\<close>

lemma lookup_hit_from:
  assumes inv: "pconc_inv env cfg ccfg b s" and dec: "decoder_wf env" and at: "call_at s i w r st"
    and l: "lookup_cached w r (pn_proxy s) = (Some entry, p)"
  shows "hit_from env cfg (requests s) (px_frames (pn_proxy s)) w r entry"
proof -
  have wf: "\<forall>(w, r) \<in> set (requests s). request_wf r" "request_wf r"
    and p: "proxy_inv env cfg ccfg (requests s) (pn_proxy s)"
    using inv call_at_request [OF at] by (auto simp: pconc_inv_def)
  have "fst (lookup_cached w r (pn_proxy s)) = Some entry" by (simp add: l)
  from hit_origin [OF p wf dec this] show ?thesis unfolding hit_from_def by metis
qed

lemma pconc_inv_lookup:
  assumes inv: "pconc_inv env cfg ccfg b s" and dec: "decoder_wf env" and at: "call_at s i w r (Admitted bdy)"
    and l: "lookup_cached w r (pn_proxy s) = (found, p)"
  shows "pconc_inv env cfg ccfg b (move i w r (case found of Some e \<Rightarrow> Found e | None \<Rightarrow> Missing bdy) p s)"
proof (rule pconc_inv_move [OF inv at _ lookup_presence [OF l]])
  show "proxy_inv env cfg ccfg (requests s) p"
    using inv by (intro proxy_inv_lookup [OF _ l]) (simp add: pconc_inv_def)
  have frs: "px_frames p = px_frames (pn_proxy s)" using lookup_keeps(2) [of w r "pn_proxy s"] l by simp
  then show "set (px_frames (pn_proxy s)) \<subseteq> set (px_frames p)" by simp
  show "stage_ok env cfg b (requests s) (px_frames p) w r (case found of Some e \<Rightarrow> Found e | None \<Rightarrow> Missing bdy)"
    using call_at_ok [OF inv at] lookup_hit_from [OF inv dec at] l by (auto simp: frs split: option.split)
qed

text \<open>The frame of a round trip belongs to the request.\<close>

lemma pconc_inv_requested:
  assumes inv: "pconc_inv env cfg ccfg b s" and at: "call_at s i w r (Missing bdy)"
    and m: "ye_marshal env (relay_request r bdy) = Some payload" and fr: "fr = the_frame w (pn_proxy s) payload"
  shows "pconc_inv env cfg ccfg b (move i w r (Waiting fr) ((pn_proxy s)
       \<lparr>px_frames := px_frames (pn_proxy s) @ [(fr, requestTimeout (pn_proxy s))]\<rparr>) s)"
proof (rule pconc_inv_move [OF inv at])
  have bdy: "passes env cfg r bdy" using call_at_ok [OF inv at] by simp
  have pay: "fr_Payload fr = payload" "fr_Type fr = FrameDATA" by (simp_all add: fr the_frame_def request_frame_def)
  have p: "proxy_inv env cfg ccfg (requests s) (pn_proxy s)" using inv by (simp add: pconc_inv_def)
  have rf: "relayed_frame env cfg (requests s) fr"
    unfolding relayed_frame_def using bdy m pay call_at_request [OF at]
    by (intro exI [of _ w] exI [of _ r] exI [of _ bdy]) simp
  show "proxy_inv env cfg ccfg (requests s) ((pn_proxy s)
       \<lparr>px_frames := px_frames (pn_proxy s) @ [(fr, requestTimeout (pn_proxy s))]\<rparr>)"
    by (rule proxy_inv_frame [OF p rf]) simp_all
  show "stage_ok env cfg b (requests s) (px_frames ((pn_proxy s)
       \<lparr>px_frames := px_frames (pn_proxy s) @ [(fr, requestTimeout (pn_proxy s))]\<rparr>)) w r (Waiting fr)"
    unfolding stage_ok.simps using bdy m pay
    by (intro exI [of _ "requestTimeout (pn_proxy s)"] exI [of _ bdy]) simp
qed (simp_all add: subset_insertI)

lemma waiting_timeout:
  assumes "pconc_inv env cfg ccfg b s" "call_at s i w r (Waiting fr)"
  obtains bdy where "(fr, requestTimeout (pn_proxy s)) \<in> set (px_frames (pn_proxy s))" "passes env cfg r bdy"
    "ye_marshal env (relay_request r bdy) = Some (fr_Payload fr)"
proof -
  obtain t bdy where t: "(fr, t) \<in> set (px_frames (pn_proxy s))" "passes env cfg r bdy"
    "ye_marshal env (relay_request r bdy) = Some (fr_Payload fr)" using call_at_ok [OF assms] by auto
  moreover have "t = requestTimeout (pn_proxy s)"
    using assms(1) t(1) by (auto simp: pconc_inv_def proxy_inv_def)
  ultimately show ?thesis using that by blast
qed

lemma pconc_inv_answered:
  assumes inv: "pconc_inv env cfg ccfg b s" and at: "call_at s i w r (Waiting fr)"
    and a: "yw_relay w fr (requestTimeout (pn_proxy s)) = RelayAnswer a" "ye_unmarshal env a = Some resp"
  shows "pconc_inv env cfg ccfg b (move i w r (Answered resp) (store_response env w r resp (pn_proxy s)) s)"
proof -
  have "answered_by env cfg (px_frames (pn_proxy s)) w r resp"
    unfolding answered_by_def by (rule waiting_timeout [OF inv at]) (use a in \<open>intro exI conjI\<close>)
  moreover from this have "proxy_inv env cfg ccfg (requests s) (store_response env w r resp (pn_proxy s))"
    using inv call_at_request [OF at] by (intro proxy_inv_store) (simp_all add: pconc_inv_def)
  ultimately show ?thesis
    by (intro pconc_inv_move [OF inv at]) (simp_all add: store_presence)
qed

lemma pconc_inv_step:
  assumes inv: "pconc_inv env cfg ccfg b s" and dec: "decoder_wf env" and step: "pconc_step env s s'"
  shows "pconc_inv env cfg ccfg b s'"
  using step
proof (cases rule: pconc_step.cases)
  case (arrived r w)
  have sub: "set (requests s) \<subseteq> set (requests s @ [(w, r)])" by auto
  have p: "proxy_inv env cfg ccfg (requests s) (pn_proxy s)" using inv by (simp add: pconc_inv_def)
  have "proxy_inv env cfg ccfg (requests s @ [(w, r)]) (pn_proxy s)"
    by (rule proxy_inv_grow [OF p sub refl refl refl])
  moreover have "\<forall>(w', r', st') \<in> set (pn_calls s).
      stage_ok env cfg b (requests s @ [(w, r)]) (px_frames (pn_proxy s)) w' r' st'"
    using inv stage_ok_mono [OF _ sub subset_refl] unfolding pconc_inv_def by fast
  moreover have "requests s' = requests s @ [(w, r)]" "pn_proxy s' = pn_proxy s"
    "set (pn_calls s') = insert (w, r, Called) (set (pn_calls s))"
    by (simp_all add: arrived(1) requests_def)
  ultimately show ?thesis using inv arrived(2) by (simp add: pconc_inv_def)
next
  case (looked_up i w r bdy found p)
  show ?thesis unfolding looked_up(1) by (rule pconc_inv_lookup [OF inv dec looked_up(2,3)])
next
  case (requested i w r bdy payload fr)
  show ?thesis unfolding requested(1) by (rule pconc_inv_requested [OF inv requested(2-4)])
next
  case (answered i w r fr a resp)
  show ?thesis unfolding answered(1) by (rule pconc_inv_answered [OF inv answered(2-4)])
next
  case (redirected i w r)
  show ?thesis unfolding redirected(1)
    by (rule pconc_inv_count [OF inv redirected(2)]) (simp_all add: redirected(3))
next
  case (connect i w r)
  show ?thesis unfolding connect(1)
    by (rule pconc_inv_count [OF inv connect(2)]) (use connect(3) in \<open>simp_all add: exI\<close>)
next
  case (unread i w r)
  show ?thesis unfolding unread(1)
    by (rule pconc_inv_count [OF inv unread(2)]) (use unread(5) in \<open>auto simp: passes_def\<close>)
next
  case (denied i w r bdy err)
  have "px_cfg (pn_proxy s) = cfg" using inv by (simp add: pconc_inv_def proxy_inv_def)
  then show ?thesis unfolding denied(1)
    by (intro pconc_inv_count [OF inv denied(2)]) (use denied(5,6) in \<open>simp_all add: passes_def, blast\<close>)
next
  case (admitted i w r bdy)
  have "px_cfg (pn_proxy s) = cfg" using inv by (simp add: pconc_inv_def proxy_inv_def)
  then show ?thesis unfolding admitted(1)
    by (intro pconc_inv_count [OF inv admitted(2)]) (use admitted(4) in simp_all)
next
  case (hit_written i w r entry rw)
  show ?thesis unfolding hit_written(1)
    by (rule pconc_inv_count [OF inv hit_written(2)]) (use call_at_ok [OF inv hit_written(2)] hit_written(3) in simp_all)
next
  case (unmarshallable i w r bdy)
  show ?thesis unfolding unmarshallable(1) by (rule pconc_inv_count [OF inv unmarshallable(2)]) simp_all
next
  case (relay_failed i w r fr failure msg st)
  let ?t = "requestTimeout (pn_proxy s)"
  have "ending_ok env cfg b (requests s) (px_frames (pn_proxy s)) w r RelayTrouble
      (replied (http_Error msg st (writer_for r)))"
    by (rule waiting_timeout [OF inv relay_failed(2)], simp only: ending_ok.simps)
      (intro exI [of _ fr] exI [of _ ?t] exI [of _ msg] exI [of _ st] conjI disjI2; use relay_failed(3-5) in simp)
  then show ?thesis unfolding relay_failed(1)
    by (intro pconc_inv_count [OF inv relay_failed(2)]) (simp_all only: count_keeps stage_ok.simps)
next
  case (unreadable i w r fr a)
  let ?t = "requestTimeout (pn_proxy s)"
  have "ending_ok env cfg b (requests s) (px_frames (pn_proxy s)) w r RelayTrouble
      (replied (http_Error ''invalid response from exit'' 502 (writer_for r)))"
    by (rule waiting_timeout [OF inv unreadable(2)], simp only: ending_ok.simps)
      (intro exI [of _ fr] exI [of _ ?t] exI [of _ a] conjI disjI1; use unreadable(3,4) in simp)
  then show ?thesis unfolding unreadable(1)
    by (intro pconc_inv_count [OF inv unreadable(2)]) (simp_all only: count_keeps stage_ok.simps)
next
  case (miss_written i w r resp rw)
  have "px_cache (pn_proxy s) \<noteq> None \<longleftrightarrow> b" using inv by (simp add: pconc_inv_def)
  then show ?thesis unfolding miss_written(1)
    by (intro pconc_inv_count [OF inv miss_written(2)])
      (use call_at_ok [OF inv miss_written(2)] miss_written(3) in simp_all)
qed

section \<open>One request after the other\<close>

text \<open>Some steps lead from \<open>s\<close> to a state with one request more, at \<open>st\<close>, and the proxy \<open>p\<close>.\<close>

definition gets :: "proxy_env \<Rightarrow> pconc \<Rightarrow> call_world \<Rightarrow> http_request \<Rightarrow> stage \<Rightarrow> HTTPProxy \<Rightarrow> bool" where
  "gets env s w r st p \<longleftrightarrow>
     (\<exists>s'. reach s (pconc_step env) s' \<and> pn_calls s' = pn_calls s @ [(w, r, st)] \<and> pn_proxy s' = p)"

lemma gets_arrived: "request_wf r \<Longrightarrow> gets env s w r Called (pn_proxy s)"
  unfolding gets_def
  by (intro exI [of _ "s\<lparr>pn_calls := pn_calls s @ [(w, r, Called)]\<rparr>"] conjI reach_one pconc_step.arrived) simp_all

lemma gets_move:
  assumes "gets env s w r st p"
    and "\<And>t i. call_at t i w r st \<Longrightarrow> pn_proxy t = p \<Longrightarrow> pconc_step env t (move i w r st' p' t)"
  shows "gets env s w r st' p'"
proof -
  obtain t where t: "reach s (pconc_step env) t" "pn_calls t = pn_calls s @ [(w, r, st)]" "pn_proxy t = p"
    using assms(1) by (auto simp: gets_def)
  let ?i = "length (pn_calls s)"
  have "call_at t ?i w r st" by (simp add: call_at_def t(2))
  then have "pconc_step env t (move ?i w r st' p' t)" using assms(2) t(3) by blast
  then have "reach s (pconc_step env) (move ?i w r st' p' t)" by (rule reach_step [OF t(1)])
  then show ?thesis unfolding gets_def by (intro exI [of _ "move ?i w r st' p' t"]) (simp add: t(2))
qed

lemma gets_serve_relay:
  assumes "gets env s w r (Missing bdy) p"
  shows "\<exists>en. gets env s w r (Done en (replied (fst (serve_relay env w r bdy (writer_for r) p))))
    (snd (serve_relay env w r bdy (writer_for r) p))"
proof (cases "ye_marshal env (relay_request r bdy)")
  case None
  have "gets env s w r (Done Unsent (replied (http_Error ''internal error'' 500 (writer_for r)))) p"
    by (rule gets_move [OF assms], frule pconc_step.unmarshallable [OF _ None]) simp
  then show ?thesis using None by (auto simp: serve_relay_def)
next
  case (Some payload)
  let ?fr = "the_frame w p payload" and ?p = "p\<lparr>px_frames := px_frames p @ [(the_frame w p payload, requestTimeout p)]\<rparr>"
  have 1: "gets env s w r (Waiting ?fr) ?p"
    by (rule gets_move [OF assms], frule pconc_step.requested [OF _ Some refl]) simp
  have t: "requestTimeout ?p = requestTimeout p" by (simp add: requestTimeout_def)
  show ?thesis
  proof (cases "yw_relay w ?fr (requestTimeout p)")
    case (RelayAnswer a)
    show ?thesis
    proof (cases "ye_unmarshal env a")
      case None
      have "gets env s w r (Done RelayTrouble (replied (http_Error ''invalid response from exit'' 502 (writer_for r))))
          (count_ProxyErrors ?p)"
        by (rule gets_move [OF 1], frule pconc_step.unreadable [where a = a]) (simp_all add: RelayAnswer None t)
      then show ?thesis using Some RelayAnswer None by (auto simp: serve_relay_def the_frame_def Let_def)
    next
      case resp: (Some resp)
      let ?q = "store_response env w r resp ?p" and ?rw = "write_miss (px_cache (store_response env w r resp ?p) \<noteq> None) resp (writer_for r)"
      have 2: "gets env s w r (Answered resp) ?q"
        by (rule gets_move [OF 1], frule pconc_step.answered [where a = a, OF _ _ resp]) (simp_all add: RelayAnswer t)
      have "gets env s w r (Done (Relayed resp) (replied ?rw)) (count_written ?rw ?q)"
        by (rule gets_move [OF 2], frule pconc_step.miss_written [OF _ refl]) simp
      then show ?thesis using Some RelayAnswer resp
        by (cases ?rw) (auto simp: serve_relay_def the_frame_def Let_def count_written_def)
    qed
  next
    case (RelayError msg st)
    have "gets env s w r (Done RelayTrouble (replied (http_Error msg st (writer_for r))))
        (proxy_log (log_Error ''proxy: relay error'' []) (count_ProxyErrors ?p))"
      by (rule gets_move [OF 1], frule pconc_step.relay_failed [where msg = msg and st = st, OF _ refl])
        (simp_all add: RelayError t relay_failure_def)
    then show ?thesis using Some RelayError by (auto simp: serve_relay_def the_frame_def Let_def relay_failure_def)
  next
    case (RelayFailed err)
    obtain msg st where m: "relay_failure (RelayFailed err) = (msg, st)" by fastforce
    have "gets env s w r (Done RelayTrouble (replied (http_Error msg st (writer_for r))))
        (proxy_log (log_Error ''proxy: relay error'' []) (count_ProxyErrors ?p))"
      by (rule gets_move [OF 1], frule pconc_step.relay_failed [where msg = msg and st = st, OF _ refl])
        (simp_all add: RelayFailed t m)
    then show ?thesis using Some RelayFailed m by (auto simp: serve_relay_def the_frame_def Let_def)
  qed
qed

lemma gets_mux_serve:
  assumes wf: "request_wf r"
  shows "\<exists>en. gets env s w r (Done en (fst (mux_serve env w r (pn_proxy s)))) (snd (mux_serve env w r (pn_proxy s)))"
proof -
  let ?p = "pn_proxy s" and ?p1 = "count_ProxyRequests (pn_proxy s)"
  note called = gets_arrived [OF wf, of env s w]
  note defs = mux_serve_def ServeHTTP_def unclean_def writer_for_def replied_def case_prod_beta Let_def
  consider (unclean) "unclean r" | (connect) "rq_Method r = ''CONNECT''"
    | (serve) "\<not> unclean r" "rq_Method r \<noteq> ''CONNECT''" by blast
  then show ?thesis
  proof cases
    case unclean
    have "gets env s w r (Done Uncounted (Redirected (cleanPath (rq_EscapedPath r)))) ?p"
      by (rule gets_move [OF called], frule pconc_step.redirected [OF _ unclean]) simp
    then show ?thesis using unclean by (auto simp: defs)
  next
    case connect
    have "gets env s w r (Done Uncounted (replied
        (http_Error ''HTTPS CONNECT tunnelling is not supported by chunkbridge'' 501 (writer_for r)))) ?p"
      by (rule gets_move [OF called], frule pconc_step.connect [OF _ connect]) simp
    then show ?thesis using connect by (auto simp: defs)
  next
    case serve
    show ?thesis
    proof (cases "\<exists>bdy. passes env (px_cfg ?p) r bdy")
      case False
      then consider "read_body r = None"
        | bdy err where "read_body r = Some bdy" "CheckRequest (ye_policy env) (Policy (px_cfg ?p)) (target_url r) = Some err"
        using serve(2) by (auto simp: passes_def)
      then show ?thesis
      proof cases
        case 1
        have "gets env s w r (Done Denied (replied (http_Error ''failed to read request body'' 400 (writer_for r)))) ?p1"
          by (rule gets_move [OF called], frule pconc_step.unread [OF _ serve 1]) simp
        then show ?thesis using 1 serve by (auto simp: defs)
      next
        case 2
        have "gets env s w r (Done Denied (replied (http_Error (''policy: '' @ ye_error_text env err) 403 (writer_for r))))
            (proxy_log (log_Warn ''proxy: policy denied'' [''url'', target_url r]) ?p1)"
          by (rule gets_move [OF called], frule pconc_step.denied [OF _ serve 2(1)]) (simp_all add: 2(2))
        then show ?thesis using 2 serve by (auto simp: defs)
      qed
    next
      case True
      then obtain bdy where bdy: "passes env (px_cfg ?p) r bdy" by blast
      obtain found p2 where l: "lookup_cached w r ?p1 = (found, p2)" by fastforce
      have 1: "gets env s w r (Admitted bdy) ?p1"
        by (rule gets_move [OF called], frule pconc_step.admitted [OF _ serve(1)]) (simp_all add: bdy)
      have 2: "gets env s w r (case found of Some e \<Rightarrow> Found e | None \<Rightarrow> Missing bdy) p2"
        by (rule gets_move [OF 1], frule pconc_step.looked_up) (simp_all add: l)
      show ?thesis
      proof (cases found)
        case None
        then show ?thesis
          using gets_serve_relay [of env s w r bdy p2] 2 bdy l serve by (auto simp: defs passes_def)
      next
        case (Some e)
        let ?rw = "write_hit r e (writer_for r)"
        have "gets env s w r (Done (FromCache e) (replied ?rw)) (count_written ?rw p2)"
          by (rule gets_move [OF 2 [unfolded Some option.case]], frule pconc_step.hit_written [OF _ refl]) simp
        then show ?thesis using Some bdy l serve
          by (cases ?rw) (auto simp: defs passes_def count_written_def)
      qed
    qed
  qed
qed

section \<open>Counters\<close>

definition proxy_counts :: "HTTPProxy \<Rightarrow> int \<times> int \<times> int" where
  "proxy_counts p =
     (me_ProxyRequests (px_metrics p), me_ProxyResponses (px_metrics p), me_ProxyErrors (px_metrics p))"

text \<open>The goroutines that \<^verbatim>\<open>ProxyRequests\<close>, \<^verbatim>\<open>ProxyResponses\<close> and \<^verbatim>\<open>ProxyErrors\<close> count.\<close>

fun counts_request :: "stage \<Rightarrow> bool" where
  "counts_request Called \<longleftrightarrow> False"
| "counts_request (Done Uncounted reply) \<longleftrightarrow> False"
| "counts_request st \<longleftrightarrow> True"

fun counts_response :: "stage \<Rightarrow> bool" where
  "counts_response (Done (FromCache entry) reply) \<longleftrightarrow> reply \<noteq> Handled None"
| "counts_response (Done (Relayed resp) reply) \<longleftrightarrow> reply \<noteq> Handled None"
| "counts_response st \<longleftrightarrow> False"

fun counts_error :: "stage \<Rightarrow> bool" where
  "counts_error (Done RelayTrouble reply) \<longleftrightarrow> True"
| "counts_error st \<longleftrightarrow> False"

text \<open>Requests that are counted as nothing but requests: refused, not sent, or a panic.\<close>

fun counts_only :: "stage \<Rightarrow> bool" where
  "counts_only (Done Uncounted reply) \<longleftrightarrow> False"
| "counts_only (Done en reply) \<longleftrightarrow> \<not> counts_response (Done en reply) \<and> \<not> counts_error (Done en reply)"
| "counts_only st \<longleftrightarrow> False"

fun is_done :: "stage \<Rightarrow> bool" where
  "is_done (Done en reply) \<longleftrightarrow> True"
| "is_done st \<longleftrightarrow> False"

definition how_many_calls :: "(stage \<Rightarrow> bool) \<Rightarrow> pconc \<Rightarrow> nat" where
  "how_many_calls P s = how_many (\<lambda>(w, r, st). P st) (pn_calls s)"

definition proxy_counts_inv :: "pconc \<Rightarrow> bool" where
  "proxy_counts_inv s \<longleftrightarrow>
     proxy_counts (pn_proxy s) =
       (wrap64 (int (how_many_calls counts_request s)), wrap64 (int (how_many_calls counts_response s)),
        wrap64 (int (how_many_calls counts_error s)))"

definition bump :: "bool \<Rightarrow> int \<Rightarrow> int" where
  "bump b n = (if b then incr n else n)"

lemma bump_wrap: "bump b (wrap64 (int n)) = wrap64 (int (n + (if b then 1 else 0)))"
  by (simp add: bump_def incr_def wrap64_def algebra_simps mod_simps)

lemma how_many_move:
  assumes "call_at s i w r st0" "P st0 \<Longrightarrow> P st"
  shows "how_many_calls P (move i w r st p s) = how_many_calls P s + (if \<not> P st0 \<and> P st then 1 else 0)"
  using how_many_update [of i "pn_calls s" "\<lambda>(w, r, st). P st" "(w, r, st)"] assms
  by (auto simp: how_many_calls_def call_at_def split: if_splits)

lemma proxy_counts_move:
  assumes "proxy_counts_inv s" "call_at s i w r st0"
    and "counts_request st0 \<Longrightarrow> counts_request st" "counts_response st0 \<Longrightarrow> counts_response st"
      "counts_error st0 \<Longrightarrow> counts_error st"
    and "proxy_counts p = (case proxy_counts (pn_proxy s) of (q, a, x) \<Rightarrow>
      (bump (\<not> counts_request st0 \<and> counts_request st) q, bump (\<not> counts_response st0 \<and> counts_response st) a,
       bump (\<not> counts_error st0 \<and> counts_error st) x))"
  shows "proxy_counts_inv (move i w r st p s)"
  using assms by (simp add: proxy_counts_inv_def how_many_move [OF assms(2)] bump_wrap)

lemma proxy_counts_simps [simp]:
  "proxy_counts (count_ProxyRequests p) = (case proxy_counts p of (q, a, x) \<Rightarrow> (incr q, a, x))"
  "proxy_counts (count_ProxyErrors p) = (case proxy_counts p of (q, a, x) \<Rightarrow> (q, a, incr x))"
  "proxy_counts (count_written rw p) = (case proxy_counts p of (q, a, x) \<Rightarrow> (q, bump (rw \<noteq> None) a, x))"
  "proxy_counts (proxy_log f p) = proxy_counts p" "proxy_counts (p\<lparr>px_frames := fs\<rparr>) = proxy_counts p"
  "proxy_counts (store_response env w r resp p) = proxy_counts p"
  by (simp_all add: proxy_counts_def count_ProxyRequests_def count_ProxyResponses_def count_ProxyErrors_def
      count_written_def bump_def proxy_log_def store_response_def split: option.split)

lemma proxy_counts_lookup: "lookup_cached w r p = (found, p') \<Longrightarrow> proxy_counts p' = proxy_counts p"
  by (auto simp: lookup_cached_def proxy_counts_def split: option.splits if_splits prod.splits)

lemma replied_panic [simp]: "replied rw = Handled None \<longleftrightarrow> rw = None"
  by (simp add: replied_def)

lemma proxy_counts_step:
  assumes inv: "proxy_counts_inv s" and step: "pconc_step env s s'"
  shows "proxy_counts_inv s'"
  using step
proof (cases rule: pconc_step.cases)
  case (arrived r w)
  then show ?thesis using inv by (simp add: proxy_counts_inv_def how_many_calls_def)
next
  case (looked_up i w r bdy found p)
  show ?thesis unfolding looked_up(1)
    by (rule proxy_counts_move [OF inv looked_up(2)])
      (simp_all add: proxy_counts_lookup [OF looked_up(3)] bump_def case_prod_beta split: option.split)
next
  case (redirected i w r)
  show ?thesis unfolding redirected(1)
    by (rule proxy_counts_move [OF inv redirected(2)]) (simp_all add: bump_def case_prod_beta)
next
  case (connect i w r)
  show ?thesis unfolding connect(1)
    by (rule proxy_counts_move [OF inv connect(2)]) (simp_all add: bump_def case_prod_beta)
next
  case (unread i w r)
  show ?thesis unfolding unread(1)
    by (rule proxy_counts_move [OF inv unread(2)]) (simp_all add: bump_def case_prod_beta)
next
  case (denied i w r bdy err)
  show ?thesis unfolding denied(1)
    by (rule proxy_counts_move [OF inv denied(2)]) (simp_all add: bump_def case_prod_beta)
next
  case (admitted i w r bdy)
  show ?thesis unfolding admitted(1)
    by (rule proxy_counts_move [OF inv admitted(2)]) (simp_all add: bump_def case_prod_beta)
next
  case (hit_written i w r entry rw)
  show ?thesis unfolding hit_written(1)
    by (rule proxy_counts_move [OF inv hit_written(2)]) (simp_all add: bump_def case_prod_beta)
next
  case (unmarshallable i w r bdy)
  show ?thesis unfolding unmarshallable(1)
    by (rule proxy_counts_move [OF inv unmarshallable(2)]) (simp_all add: bump_def case_prod_beta)
next
  case (requested i w r bdy payload fr)
  show ?thesis unfolding requested(1)
    by (rule proxy_counts_move [OF inv requested(2)]) (simp_all add: bump_def case_prod_beta)
next
  case (relay_failed i w r fr failure msg st)
  show ?thesis unfolding relay_failed(1)
    by (rule proxy_counts_move [OF inv relay_failed(2)]) (simp_all add: bump_def case_prod_beta)
next
  case (unreadable i w r fr a)
  show ?thesis unfolding unreadable(1)
    by (rule proxy_counts_move [OF inv unreadable(2)]) (simp_all add: bump_def case_prod_beta)
next
  case (answered i w r fr a resp)
  show ?thesis unfolding answered(1)
    by (rule proxy_counts_move [OF inv answered(2)]) (simp_all add: bump_def case_prod_beta)
next
  case (miss_written i w r resp rw)
  show ?thesis unfolding miss_written(1)
    by (rule proxy_counts_move [OF inv miss_written(2)]) (simp_all add: bump_def case_prod_beta)
qed

section \<open>Progress\<close>






section \<open>Serve\<close>

text \<open>
  \<^verbatim>\<open>Serve\<close>: the HTTP server, the relay session in a goroutine of its own, and the context they share.
  \<open>sv_session\<close>: the session still runs; \<open>sv_returned\<close>: what \<^verbatim>\<open>server.Serve\<close> has returned, by the
  closing of the listener or by \<^verbatim>\<open>Shutdown\<close>. Errors are texts; \<open>None\<close> is \<^verbatim>\<open>nil\<close>.
\<close>

record serving =
  sv_calls :: pconc
  sv_session :: bool
  sv_cancelled :: bool
  sv_returned :: "string option option"

definition serve_start :: "HTTPProxy \<Rightarrow> serving" where
  "serve_start p = \<lparr>sv_calls = pconc_start p, sv_session = True, sv_cancelled = False, sv_returned = None\<rparr>"

text \<open>The end of the session's goroutine: the error is logged unless the context was cancelled before.\<close>

definition end_session :: "string option \<Rightarrow> serving \<Rightarrow> serving" where
  "end_session err s =
     (let c = sv_calls s;
          c = (if err \<noteq> None \<and> \<not> sv_cancelled s
               then c\<lparr>pn_proxy := proxy_log (log_Error ''relay session error'' []) (pn_proxy c)\<rparr> else c)
      in s\<lparr>sv_calls := c, sv_session := False, sv_cancelled := True\<rparr>)"

inductive serve_step :: "proxy_env \<Rightarrow> serving \<Rightarrow> serving \<Rightarrow> bool" for env where
  handling: "pconc_step env (sv_calls s) c \<Longrightarrow> serve_step env s (s\<lparr>sv_calls := c\<rparr>)"
| session_ended: "sv_session s \<Longrightarrow> serve_step env s (end_session err s)"
| server_returned:
    "sv_returned s = None \<Longrightarrow> serve_step env s (s\<lparr>sv_returned := Some err, sv_cancelled := True\<rparr>)"

definition serve_run :: "proxy_env \<Rightarrow> HTTPProxy \<Rightarrow> serving \<Rightarrow> bool" where
  "serve_run env p = reach (serve_start p) (serve_step env)"

definition serve_inv :: "proxy_env \<Rightarrow> Config \<Rightarrow> cache_config \<Rightarrow> bool \<Rightarrow> serving \<Rightarrow> bool" where
  "serve_inv env cfg ccfg caching s \<longleftrightarrow>
     pconc_inv env cfg ccfg caching (sv_calls s) \<and>
     (sv_cancelled s \<longleftrightarrow> \<not> sv_session s \<or> sv_returned s \<noteq> None)"

lemma pconc_inv_log:
  assumes "pconc_inv env cfg ccfg b c"
  shows "pconc_inv env cfg ccfg b (c\<lparr>pn_proxy := proxy_log f (pn_proxy c)\<rparr>)"
proof -
  have p: "proxy_inv env cfg ccfg (requests c) (pn_proxy c)" using assms by (simp add: pconc_inv_def)
  have "proxy_inv env cfg ccfg (requests c) (proxy_log f (pn_proxy c))"
    by (rule proxy_inv_grow [OF p subset_refl]) simp_all
  then show ?thesis using assms by (simp add: pconc_inv_def requests_def)
qed

lemma serve_inv_step:
  assumes dec: "decoder_wf env" and inv: "serve_inv env cfg ccfg b s" and step: "serve_step env s s'"
  shows "serve_inv env cfg ccfg b s'"
  using step
proof (cases rule: serve_step.cases)
  case (handling c)
  then show ?thesis using inv pconc_inv_step [OF _ dec handling(2)] by (simp add: serve_inv_def)
next
  case (session_ended err)
  then show ?thesis using inv pconc_inv_log by (auto simp: serve_inv_def end_session_def Let_def)
next
  case (server_returned err)
  then show ?thesis using inv by (simp add: serve_inv_def)
qed

section \<open>Runs\<close>

lemma pconc_start_simps [simp]:
  "pn_proxy (pconc_start p) = p" "pn_calls (pconc_start p) = []" "requests (pconc_start p) = []"
  by (simp_all add: pconc_start_def requests_def)

lemma serve_safe:
  assumes "fresh_proxy cfg ccfg p" "decoder_wf env"
  shows "invariant (serve_start p) (serve_step env) (serve_inv env cfg ccfg (px_cache p \<noteq> None))"
proof unfold_locales
  show "serve_inv env cfg ccfg (px_cache p \<noteq> None) (serve_start p)"
    using proxy_inv_fresh [OF assms(1)] by (simp add: serve_inv_def serve_start_def pconc_inv_def)
qed (rule serve_inv_step [OF assms(2)])

lemma serve_counted:
  assumes "proxy_counts p = (0, 0, 0)"
  shows "invariant (serve_start p) (serve_step env) (\<lambda>s. proxy_counts_inv (sv_calls s))"
proof unfold_locales
  show "proxy_counts_inv (sv_calls (serve_start p))"
    using assms by (simp add: serve_start_def proxy_counts_inv_def how_many_calls_def wrap64_def)
next
  fix s s' assume inv: "proxy_counts_inv (sv_calls s)" and step: "serve_step env s s'"
  from step show "proxy_counts_inv (sv_calls s')"
  proof (cases rule: serve_step.cases)
    case (handling c)
    then show ?thesis using proxy_counts_step [OF inv] by simp
  qed (use inv in \<open>auto simp: end_session_def Let_def proxy_counts_inv_def how_many_calls_def\<close>)
qed

text \<open>The replies of the sequential handler, one per request.\<close>

fun proxy_replies :: "proxy_env \<Rightarrow> (call_world \<times> http_request) list \<Rightarrow> HTTPProxy \<Rightarrow> served list" where
  "proxy_replies env [] p = []"
| "proxy_replies env ((w, r) # calls) p =
     fst (mux_serve env w r p) # proxy_replies env calls (snd (mux_serve env w r p))"

fun stage_reply :: "stage \<Rightarrow> served option" where
  "stage_reply (Done en reply) = Some reply"
| "stage_reply st = None"

lemma proxy_state_steps:
  "\<forall>(w, r) \<in> set calls. request_wf r \<Longrightarrow>
     \<exists>s'. reach s (pconc_step env) s' \<and> pn_proxy s' = proxy_state env calls (pn_proxy s) \<and>
       requests s' = requests s @ calls \<and>
       map (\<lambda>(w, r, st). stage_reply st) (pn_calls s') =
         map (\<lambda>(w, r, st). stage_reply st) (pn_calls s) @ map Some (proxy_replies env calls (pn_proxy s))"
proof (induction calls arbitrary: s)
  case Nil
  then show ?case by (intro exI [of _ s]) (simp add: proxy_state_def reach_start)
next
  case (Cons wr calls)
  obtain w r where wr: "wr = (w, r)" by (cases wr)
  then have "request_wf r" using Cons.prems by simp
  from gets_mux_serve [OF this, of env s w] obtain en s1 where s1: "reach s (pconc_step env) s1"
    "pn_calls s1 = pn_calls s @ [(w, r, Done en (fst (mux_serve env w r (pn_proxy s))))]"
    "pn_proxy s1 = snd (mux_serve env w r (pn_proxy s))" unfolding gets_def by blast
  from Cons.IH [of s1] Cons.prems obtain s2 where s2: "reach s1 (pconc_step env) s2"
    "pn_proxy s2 = proxy_state env calls (pn_proxy s1)" "requests s2 = requests s1 @ calls"
    "map (\<lambda>(w, r, st). stage_reply st) (pn_calls s2) =
       map (\<lambda>(w, r, st). stage_reply st) (pn_calls s1) @ map Some (proxy_replies env calls (pn_proxy s1))" by auto
  show ?case
    using reach_trans [OF s2(1) s1(1)] s2 s1
    by (intro exI [of _ s2]) (simp add: wr proxy_state_def requests_def)
qed

section \<open>Properties\<close>


text \<open>
  C8: the shared state of a running proxy. In every interleaving the cache has its configuration, is
  well formed and within its limits, every frame given to the relay carries a request that the policy
  allows, and the context of the relay session is cancelled exactly when the session or the server
  has ended.
\<close>

theorem concurrent_proxy_safe:
  assumes "fresh_proxy cfg ccfg p0" "decoder_wf env" "serve_run env p0 s"
  shows "(\<forall>c. px_cache (pn_proxy (sv_calls s)) = Some c \<longrightarrow> cache_ok c \<and> cache_within c \<and> ch_cfg c = ccfg) \<and>
    (\<forall>(fr, t) \<in> set (px_frames (pn_proxy (sv_calls s))).
       fr_Type fr = FrameDATA \<and> t = requestTimeout p0 \<and>
       (\<exists>w r bdy. (w, r) \<in> set (requests (sv_calls s)) \<and> rq_Method r \<noteq> ''CONNECT'' \<and>
          CheckRequest (ye_policy env) (Policy cfg) (target_url r) = None \<and>
          ye_marshal env (relay_request r bdy) = Some (fr_Payload fr) \<and>
          bdy = (case rq_Body r of None \<Rightarrow> '''' | Some b \<Rightarrow> take (10 * 1024 * 1024) (bd_data b)))) \<and>
    (sv_cancelled s \<longleftrightarrow> \<not> sv_session s \<or> sv_returned s \<noteq> None)"
proof -
  have "serve_inv env cfg ccfg (px_cache p0 \<noteq> None) s"
    using invariant.always [OF serve_safe [OF assms(1,2)]] assms(3) by (simp add: serve_run_def)
  then have p: "proxy_inv env cfg ccfg (requests (sv_calls s)) (pn_proxy (sv_calls s))"
    and c: "sv_cancelled s \<longleftrightarrow> \<not> sv_session s \<or> sv_returned s \<noteq> None"
    by (simp_all add: serve_inv_def pconc_inv_def)
  have t: "requestTimeout (pn_proxy (sv_calls s)) = requestTimeout p0"
    using p assms(1) by (intro requestTimeout_cong) (simp add: proxy_inv_def fresh_proxy_def)
  have f: "relayed_frame env cfg (requests (sv_calls s)) fr \<and> t = requestTimeout p0"
    if "(fr, t) \<in> set (px_frames (pn_proxy (sv_calls s)))" for fr t
    using p that by (auto simp: proxy_inv_def t)
  show ?thesis
  proof (intro conjI ballI)
    show "\<forall>c. px_cache (pn_proxy (sv_calls s)) = Some c \<longrightarrow> cache_ok c \<and> cache_within c \<and> ch_cfg c = ccfg"
      using p by (simp add: proxy_inv_def cache_sound_def)
  qed (use c f relayed_frame_request in \<open>fastforce+\<close>)
qed

text \<open>
  C22: no request is lost or counted twice. In every interleaving the three atomic counters of the
  proxy are, as 64-bit numbers, the numbers of requests past the first action of the handler, of
  replies written from the cache or the relay, and of failed round trips. Once all requests are
  answered, the first is the sum of the others and of the requests that were refused, could not be
  sent or panicked.
\<close>

theorem concurrent_proxy_counters:
  assumes "proxy_counts p0 = (0, 0, 0)" "serve_run env p0 s"
  shows "proxy_counts (pn_proxy (sv_calls s)) =
      (wrap64 (int (how_many_calls counts_request (sv_calls s))),
       wrap64 (int (how_many_calls counts_response (sv_calls s))),
       wrap64 (int (how_many_calls counts_error (sv_calls s)))) \<and>
    (how_many_calls is_done (sv_calls s) = length (pn_calls (sv_calls s)) \<longrightarrow>
       how_many_calls counts_request (sv_calls s) =
         how_many_calls counts_response (sv_calls s) + how_many_calls counts_error (sv_calls s) +
         how_many_calls counts_only (sv_calls s))"
proof -
  have "proxy_counts_inv (sv_calls s)"
    using invariant.always [OF serve_counted [OF assms(1)]] assms(2) by (simp add: serve_run_def)
  moreover have "how_many (\<lambda>(w, r, st). counts_request st) cs = how_many (\<lambda>(w, r, st). counts_response st) cs +
      how_many (\<lambda>(w, r, st). counts_error st) cs + how_many (\<lambda>(w, r, st). counts_only st) cs"
    if "how_many (\<lambda>(w, r, st). is_done st) cs = length cs" for cs :: "(call_world \<times> http_request \<times> stage) list"
    using that
  proof (induction cs)
    case (Cons c cs)
    have le: "how_many (\<lambda>(w, r, st). is_done st) cs \<le> length cs" by (simp add: how_many_def)
    obtain w r st where c: "c = (w, r, st)" by (cases c)
    with Cons.prems le have d: "is_done st" "how_many (\<lambda>(w, r, st). is_done st) cs = length cs"
      by (auto split: if_splits)
    then obtain en reply where "st = Done en reply" by (cases st) auto
    then show ?case using Cons.IH [OF d(2)] by (cases en) (auto simp: c)
  qed simp
  ultimately show ?thesis by (simp add: proxy_counts_inv_def how_many_calls_def)
qed



section \<open>A concrete run\<close>

lemma serve_handles:
  "reach c (pconc_step env) c' \<Longrightarrow> sv_calls s = c \<Longrightarrow> reach s (serve_step env) (s\<lparr>sv_calls := c'\<rparr>)"
proof (induction rule: reach.induct)
  case reach_start
  then have "s\<lparr>sv_calls := c\<rparr> = s" by auto
  then show ?case by (metis reach.reach_start)
next
  case (reach_step c1 c2)
  then have "serve_step env (s\<lparr>sv_calls := c1\<rparr>) ((s\<lparr>sv_calls := c1\<rparr>)\<lparr>sv_calls := c2\<rparr>)"
    by (intro serve_step.handling) simp
  then show ?case using reach_step.IH [OF reach_step.prems] by (auto intro: reach.reach_step)
qed

text \<open>Two requests, of which the second is answered while the first has not been looked at.\<close>

lemma demo_interleaving:
  obtains s en reply where "serve_run demo_proxy_env demo_proxy s"
    "pn_calls (sv_calls s) =
       [(demo_call (RelayAnswer ''ok'') 0, demo_request ''GET'', Called),
        (demo_call (RelayAnswer ''ok'') 0, demo_request ''GET'', Done en reply)]"
    "pn_proxy (sv_calls s) = proxy_state demo_proxy_env demo_calls demo_proxy"
proof -
  let ?w = "demo_call (RelayAnswer ''ok'') 0" and ?r = "demo_request ''GET''"
  have "nul \<notin> set ''GET''" by code_simp
  then have wf: "request_wf ?r" by (simp add: demo_wf(1))
  let ?c = "pconc_start demo_proxy" and ?c1 = "(pconc_start demo_proxy)\<lparr>pn_calls := [(?w, ?r, Called)]\<rparr>"
  have "pconc_step demo_proxy_env ?c (?c\<lparr>pn_calls := pn_calls ?c @ [(?w, ?r, Called)]\<rparr>)"
    by (rule pconc_step.arrived [OF wf])
  then have 1: "reach ?c (pconc_step demo_proxy_env) ?c1" by (simp add: reach_one)
  obtain en c2 where 2: "reach ?c1 (pconc_step demo_proxy_env) c2"
    "pn_calls c2 = pn_calls ?c1 @ [(?w, ?r, Done en (fst (mux_serve demo_proxy_env ?w ?r (pn_proxy ?c1))))]"
    "pn_proxy c2 = snd (mux_serve demo_proxy_env ?w ?r (pn_proxy ?c1))"
    using gets_mux_serve [OF wf, of demo_proxy_env ?c1 ?w] unfolding gets_def by blast
  have "reach (serve_start demo_proxy) (serve_step demo_proxy_env) ((serve_start demo_proxy)\<lparr>sv_calls := c2\<rparr>)"
    by (rule serve_handles [OF reach_trans [OF 2(1) 1]]) (simp add: serve_start_def)
  then show ?thesis
    by (intro that [of "(serve_start demo_proxy)\<lparr>sv_calls := c2\<rparr>"])
      (use 2 in \<open>simp_all add: serve_run_def proxy_state_def demo_calls_def\<close>)
qed


lemma concurrent_proxy_safe_witness:
  "\<exists>(s :: serving) fr t. (fr, t) \<in> set (px_frames (pn_proxy (sv_calls s))) \<and> fr_Type fr = FrameDATA \<and>
     t = requestTimeout demo_proxy \<and> \<not> sv_cancelled s"
proof -
  obtain c where c: "reach (pconc_start demo_proxy) (pconc_step demo_proxy_env) c"
    "pn_proxy c = proxy_state demo_proxy_env demo_calls demo_proxy"
    using proxy_state_steps [OF demo_wf(2), of "pconc_start demo_proxy" demo_proxy_env] by auto
  let ?s = "(serve_start demo_proxy)\<lparr>sv_calls := c\<rparr>"
  have run: "serve_run demo_proxy_env demo_proxy ?s"
    unfolding serve_run_def by (rule serve_handles [OF c(1)]) (simp add: serve_start_def)
  obtain fr t where f: "(fr, t) \<in> set (px_frames (pn_proxy (sv_calls ?s)))"
    using demo_run(1) c(2) by (cases "px_frames (proxy_state demo_proxy_env demo_calls demo_proxy)") auto
  have "fr_Type fr = FrameDATA \<and> t = requestTimeout demo_proxy"
    using concurrent_proxy_safe [OF demo_fresh demo_decoder run] f by blast
  with f show ?thesis by (intro exI [of _ ?s] exI [of _ fr] exI [of _ t]) (simp add: serve_start_def)
qed

lemma concurrent_proxy_counters_witness:
  "\<exists>s :: serving. length (pn_calls (sv_calls s)) = 2 \<and> how_many_calls is_done (sv_calls s) = 1 \<and>
     fst (proxy_counts (pn_proxy (sv_calls s))) = wrap64 (int (how_many_calls counts_request (sv_calls s)))"
proof -
  obtain s en reply where s: "serve_run demo_proxy_env demo_proxy s"
    "pn_calls (sv_calls s) =
       [(demo_call (RelayAnswer ''ok'') 0, demo_request ''GET'', Called),
        (demo_call (RelayAnswer ''ok'') 0, demo_request ''GET'', Done en reply)]"
    "pn_proxy (sv_calls s) = proxy_state demo_proxy_env demo_calls demo_proxy" by (rule demo_interleaving)
  have "proxy_counts demo_proxy = (0, 0, 0)"
    by (simp add: demo_proxy_def WithCache_def NewHTTPProxy_def NewMetrics_def proxy_counts_def)
  from concurrent_proxy_counters [OF this s(1)] s(2) show ?thesis
    by (intro exI [of _ s]) (simp add: how_many_calls_def)
qed



end
