(* ===== verification/Self_Test.thy ===== *)
theory Self_Test
  imports Relay_Path Startup
begin

text \<open>
  \<^verbatim>\<open>runSelftest\<close> and \<^verbatim>\<open>waitForListener\<close> of \<^verbatim>\<open>cmd/chunkbridge/main.go\<close>: a test server, an exit node and a
  proxy in one process, joined by the in-memory transport, and three requests through them.

  Parameters: the JSON and frame codecs and the delivery of the transport, as in \<open>Relay_Path\<close>; the
  results of \<^verbatim>\<open>DeriveKey\<close> and \<^verbatim>\<open>net.Listen\<close>; the clock and the outcome of each dial; the headers \<^verbatim>\<open>net/http\<close>
  adds on either side. The three requests go to \<open>ServeHTTP\<close> directly, since their paths are
  clean; the frame codec is the same at both ends. The texts of errors are left out of the lines.
\<close>

section \<open>Waiting for the listener\<close>

text \<open>
  \<open>clock k\<close>: the k-th reading of the clock, the first for the deadline; \<open>dial k\<close>: whether the k-th
  \<^verbatim>\<open>DialTimeout\<close> succeeds. \<open>Some True\<close>: it returned without an error.
\<close>

partial_function (option) wait_loop :: "(nat \<Rightarrow> int) \<Rightarrow> (nat \<Rightarrow> bool) \<Rightarrow> int \<Rightarrow> nat \<Rightarrow> bool option" where
  "wait_loop clock dial deadline k =
     (if clock k < deadline then (if dial k then Some True else wait_loop clock dial deadline (Suc k))
      else Some False)"

definition waitForListener :: "(nat \<Rightarrow> int) \<Rightarrow> (nat \<Rightarrow> bool) \<Rightarrow> bool option" where
  "waitForListener clock dial = wait_loop clock dial (clock 0 + 3 * second_ns) 1"




section \<open>The test server\<close>

definition big_body :: string where
  "big_body = replicate (128 * 1024) (CHR ''x'')"

lemma length_big_body [simp]: "length big_body = 131072"
  by (simp only: big_body_def length_replicate)

text \<open>The handler: what it writes for a path and a request body.\<close>

definition test_handler :: "string \<Rightarrow> string \<Rightarrow> response_writer \<Rightarrow> response_writer option" where
  "test_handler path bdy rw =
     (if path = ''/hello'' then map_option (rw_Write ''hello from exit'') (WriteHeader 200 rw)
      else if path = ''/echo'' then
        map_option (rw_Write bdy) (WriteHeader 200 (rw\<lparr>rw_header :=
          Header_Set ''Content-Type'' ''text/plain; charset=utf-8'' (rw_header rw)\<rparr>))
      else if path = ''/big'' then
        map_option (rw_Write big_body) (WriteHeader 200 rw)
      else WriteHeader 404 rw)"

text \<open>What the exit node's HTTP client gets from it; \<open>hdr\<close> adds the headers of \<^verbatim>\<open>net/http\<close>.\<close>

definition test_server :: "string \<Rightarrow> (http_reply \<Rightarrow> header) \<Rightarrow> out_request \<Rightarrow> do_outcome" where
  "test_server base hdr oq =
     (case test_handler (drop (length base) (oq_URL oq)) (oq_Body oq) (new_writer (oq_Method oq = ''HEAD'')) of
        None \<Rightarrow> DoError
      | Some rw \<Rightarrow>
          DoResponse \<lparr>up_Status = hr_Status (finish rw), up_Header = hdr (finish rw),
            up_Body = \<lparr>bd_data = hr_Body (finish rw), bd_fails = False\<rparr>\<rparr>)"

section \<open>The run\<close>

record selftest_env =
  st_penv :: proxy_env
  st_xenv :: exit_env
  st_deliver :: "string list \<Rightarrow> relay_outcome"
  st_base :: string
  st_hdr :: "http_reply \<Rightarrow> header"
  st_reqHeader :: "string \<Rightarrow> header"
  st_keyOk :: bool
  st_listenOk :: bool
  st_nano :: "int \<times> int"
  st_clock :: "nat \<Rightarrow> int"
  st_dial :: "nat \<Rightarrow> bool"
  st_call :: "string \<Rightarrow> call_world"

definition selftest_exit_cfg :: Config where
  "selftest_exit_cfg =
     DefaultExitConfig\<lparr>Policy := (Policy DefaultExitConfig)\<lparr>pl_BlockPrivateRanges := False\<rparr>\<rparr>"

definition selftest_pair :: "selftest_env \<Rightarrow> HTTPProxy \<times> HTTPExecutor" where
  "selftest_pair st =
     (NewHTTPProxy (fst (st_nano st)) DefaultClientConfig, NewHTTPExecutor (snd (st_nano st)) selftest_exit_cfg)"

text \<open>The outside of the exit node: the test server, and a transport that always sends.\<close>

definition test_world :: "selftest_env \<Rightarrow> exit_world" where
  "test_world st =
     \<lparr>xw_Do = \<lambda>n. test_server (st_base st) (st_hdr st), xw_Wait = \<lambda>n. True, xw_Send = \<lambda>n t. True\<rparr>"

text \<open>A request of the self test's HTTP client, as it reaches the proxy.\<close>

definition test_request :: "selftest_env \<Rightarrow> string \<Rightarrow> string \<Rightarrow> string \<Rightarrow> http_request" where
  "test_request st m path bdy =
     \<lparr>rq_Method = m, rq_RequestURI = st_base st @ path, rq_URLString = st_base st @ path,
      rq_EscapedPath = path, rq_Header = st_reqHeader st path, rq_Body = Some \<lparr>bd_data = bdy, bd_fails = False\<rparr>\<rparr>"

text \<open>
  One request through the pair: the proxy's frame is handled by the exit node, whose texts make the
  outcome of the round trip. \<open>None\<close>: the client got an error instead of a reply.
\<close>

definition test_fetch ::
  "selftest_env \<Rightarrow> string \<Rightarrow> string \<Rightarrow> string \<Rightarrow> HTTPProxy \<times> HTTPExecutor \<Rightarrow>
   (int \<times> string) option \<times> HTTPProxy \<times> HTTPExecutor"
where
  "test_fetch st m path bdy = (\<lambda>(p, e).
     let cw = (st_call st path)
           \<lparr>yw_relay := \<lambda>fr t. st_deliver st (answer_texts (st_xenv st) (test_world st) fr e)\<rparr>;
         (reply, p') = ServeHTTP (st_penv st) cw (test_request st m path bdy) p;
         frs = drop (length (px_frames p)) (px_frames p');
         e' = fold (\<lambda>(fr, t). handleRequest (st_xenv st) (test_world st) fr) frs e
     in (map_option (\<lambda>rep. (hr_Status rep, hr_Body rep)) reply, p', e'))"

datatype st_line = Pass string | Fail string

fun is_fail :: "st_line \<Rightarrow> bool" where
  "is_fail (Fail name) \<longleftrightarrow> True"
| "is_fail (Pass name) \<longleftrightarrow> False"

definition verdict :: "string \<Rightarrow> ((int \<times> string) \<Rightarrow> bool) \<Rightarrow> (int \<times> string) option \<Rightarrow> st_line" where
  "verdict name ok got = (case got of None \<Rightarrow> Fail name | Some x \<Rightarrow> if ok x then Pass name else Fail name)"

definition post_body :: string where
  "post_body = [CHR 0x7B, CHR 0x22] @ ''msg'' @ [CHR 0x22, CHR 0x3A, CHR 0x22] @ ''test'' @ [CHR 0x22, CHR 0x7D]"

text \<open>The three requests, one after the other, with the lines printed for them.\<close>

definition selftest_lines :: "selftest_env \<Rightarrow> st_line list" where
  "selftest_lines st =
     (let (hello, s1) = test_fetch st ''GET'' ''/hello'' '''' (selftest_pair st);
          (echo, s2) = test_fetch st ''POST'' ''/echo'' post_body s1;
          (big, s3) = test_fetch st ''GET'' ''/big'' '''' s2
      in [verdict ''GET /hello'' (\<lambda>(code, bdy). code = 200 \<and> bdy = ''hello from exit'') hello,
          verdict ''POST /echo'' (\<lambda>(code, bdy). code = 200 \<and> bdy = post_body) echo,
          verdict ''GET /big'' (\<lambda>(code, bdy). code = 200 \<and> length bdy = 128 * 1024) big])"

text \<open>The lines and the exit code; \<open>None\<close>: the wait for the listener does not end.\<close>

definition runSelftest :: "selftest_env \<Rightarrow> (st_line list \<times> int) option" where
  "runSelftest st =
     (if \<not> st_keyOk st then Some ([Fail ''key derivation''], 1)
      else if \<not> st_listenOk st then Some ([Fail ''listen''], 1)
      else case waitForListener (st_clock st) (st_dial st) of
        None \<Rightarrow> None
      | Some False \<Rightarrow> Some ([Fail ''proxy did not start''], 1)
      | Some True \<Rightarrow>
          let failures = length (filter is_fail (selftest_lines st))
          in Some (selftest_lines st, if failures = 0 then 0 else 1))"

section \<open>One request\<close>












section \<open>Properties\<close>


definition all_passed :: "st_line list" where
  "all_passed = [Pass ''GET /hello'', Pass ''POST /echo'', Pass ''GET /big'']"


text \<open>
  what the self test's exit code means. It is 0 or 1, and 0 exactly when the three lines say PASS.
\<close>

theorem selftest_verdict:
  assumes "runSelftest st = Some (lines, code)"
  shows "(code = 0 \<or> code = 1) \<and> (code = 0 \<longleftrightarrow> lines = all_passed)"
proof -
  have v: "is_fail (verdict name ok got) \<longleftrightarrow> verdict name ok got \<noteq> Pass name" for name ok got
    by (simp add: verdict_def split: option.split)
  have "filter is_fail (selftest_lines st) = [] \<longleftrightarrow> selftest_lines st = all_passed"
    unfolding selftest_lines_def all_passed_def Let_def case_prod_beta by (simp add: v)
  then show ?thesis using assms
    by (auto simp: runSelftest_def Let_def all_passed_def split: if_splits option.splits bool.splits)
qed


section \<open>A concrete self test\<close>

definition demo_base :: string where "demo_base = ''http://127.0.0.1:40001''"

definition demo_type :: header where "demo_type = [(''Content-Type'', [''text/plain; charset=utf-8''])]"

text \<open>A codec for the three exchanges: a request is its URL, a response its body behind a mark for its headers.\<close>

definition demo_requests :: "string \<Rightarrow> relayRequest option" where
  "demo_requests s =
     (if s = demo_base @ ''/hello'' \<or> s = demo_base @ ''/big'' then
        Some \<lparr>rr_Method = ''GET'', rr_URL = s, rr_Headers = [], rr_Body = ''''\<rparr>
      else if s = demo_base @ ''/echo'' then
        Some \<lparr>rr_Method = ''POST'', rr_URL = s, rr_Headers = [], rr_Body = post_body\<rparr>
      else None)"

definition demo_responses :: "string \<Rightarrow> proxy_relayResponse option" where
  "demo_responses a =
     (case a of
        [] \<Rightarrow> None
      | c # b \<Rightarrow> Some \<lparr>ps_StatusCode = 200, ps_Headers = (if c = CHR ''A'' then [] else demo_type), ps_Body = b\<rparr>)"

definition demo_selftest :: selftest_env where
  "demo_selftest =
     \<lparr>st_penv = demo_proxy_env\<lparr>ye_unmarshal := demo_responses\<rparr>,
      st_xenv = demo_exit\<lparr>xe_unmarshal := demo_requests,
        xe_marshal := \<lambda>rel. Some ((if rp_Headers rel = [] then CHR ''A'' else CHR ''B'') # rp_Body rel)\<rparr>,
      st_deliver = demo_deliver, st_base = demo_base, st_hdr = hr_Header, st_reqHeader = \<lambda>path. [],
      st_keyOk = True, st_listenOk = True, st_nano = (3, 7),
      st_clock = \<lambda>k. 5000000 * int k, st_dial = \<lambda>k. True, st_call = \<lambda>path. demo_call (RelayFailed '''') 0\<rparr>"





lemma selftest_verdict_witness:
  "\<exists>lines code. runSelftest (demo_selftest\<lparr>st_listenOk := False\<rparr>) = Some (lines, code) \<and> code = 1 \<and> lines \<noteq> all_passed"
proof -
  have run: "runSelftest (demo_selftest\<lparr>st_listenOk := False\<rparr>) = Some ([Fail ''listen''], 1)"
    by (simp add: runSelftest_def demo_selftest_def)
  from selftest_verdict [OF this] run show ?thesis by auto
qed


end
