(* ===== verification/Spec2Isabelle.thy ===== *)
theory Spec2Isabelle
  imports Http_Policy Resp_Cache Cache_Rules Max_Transport Observability Exit_Executor Http_Proxy
    Proxy_Replies Startup Relay_Path Exit_Concurrent Proxy_Concurrent Self_Test
begin

text \<open>
  A verification library for chunkbridge, an HTTP proxy that tunnels requests through a chat API.

  The program. A client process (\<^verbatim>\<open>cmd/chunkbridge/main.go\<close>, command \<open>client\<close>) runs an HTTP proxy
  (\<^verbatim>\<open>internal/proxy\<close>) that checks each request against a policy (\<^verbatim>\<open>internal/policy\<close>), answers it from a
  response cache (\<^verbatim>\<open>internal/cache\<close>) or packs it into a frame and hands it to a relay session of the
  module relaykit. The session's messages travel through the MAX chat API
  (\<^verbatim>\<open>internal/maxtransport\<close>: texts are sent with POST and fetched by long polling). An exit process
  (command \<open>exit\<close>) receives them, reassembles the frame, checks the policy again, makes the
  request and sends the response, or an error frame, back (\<^verbatim>\<open>internal/exit\<close>). Both processes are
  configured by a YAML file (\<^verbatim>\<open>internal/config\<close>) and keep counters and a log
  (\<^verbatim>\<open>internal/observability\<close>).

  Theories, in the order in which they build on each other:

  \<^item> \<open>Go_Prelude\<close>, \<open>Go_Strings\<close>, \<open>Go_Net\<close>, \<open>Go_IP\<close>, \<open>Go_Server\<close>: what the program uses of Go and its
    standard library. 64-bit integers as \<open>int\<close> with \<open>wrap64\<close> written out, maps as association
    lists with distinct keys, strings as byte lists with \<^verbatim>\<open>strings\<close>, \<^verbatim>\<open>strconv\<close> and UTF-8, headers,
    URLs, \<^verbatim>\<open>SplitHostPort\<close>, IP literals, the response writer and the path cleaning of \<^verbatim>\<open>net/http\<close>.
  \<^item> \<open>Cfg\<close>: \<^verbatim>\<open>config.go\<close>, \<^verbatim>\<open>validate.go\<close>, \<^verbatim>\<open>defaults.go\<close>. One record per struct, one function per
    validation method, one constructor of \<open>cfg_error\<close> per message. \<open>Validate\<close> is equivalent to a
    declarative specification of every section.
  \<^item> \<open>Http_Policy\<close>: \<^verbatim>\<open>internal/policy\<close>. \<open>CheckRequest\<close> is equivalent to the specification
    \<open>request_allowed\<close>; what passes has an allowed scheme, port and host.
  \<^item> \<open>Lru_List\<close>, \<open>Resp_Cache\<close>: \<^verbatim>\<open>lru.go\<close>, \<^verbatim>\<open>cache.go\<close>. The list keeps element identities and a key map,
    as \<^verbatim>\<open>container/list\<close> does; its interface to the cache is the locale \<open>recency_list\<close>. The cache
    satisfies \<open>cache_ok\<close> (map, list and byte total agree) and \<open>cache_within\<close> (limits), refines the
    abstract LRU list \<open>alru\<close> through \<open>abs_cache\<close>, and provides the locale \<open>response_store\<close> to the
    proxy. The eviction loop is a total function; \<open>eviction_terminates\<close> counts its turns.
  \<^item> \<open>Cache_Rules\<close>: \<^verbatim>\<open>cache/policy.go\<close>: cacheability, lifetimes, keys.
  \<^item> \<open>Max_Transport\<close>: \<^verbatim>\<open>maxapi.go\<close>. The deduplication window (locale \<open>bounded_window\<close>), \<open>Send\<close>, one poll,
    and the polling goroutine as the step relation \<open>poll_step\<close> with runs \<open>poll_run\<close>: invariants by
    rule induction, and a measure that bounds the steps after cancellation.
  \<^item> \<open>Observability\<close>, \<open>Relay_Wire\<close>: counters, the logger, and the frames both ends share.
  \<^item> \<open>Exit_Executor\<close>: \<^verbatim>\<open>http_executor.go\<close>. \<open>handleRequest\<close> in the order of the code; \<open>decide\<close> is
    its specification, and \<open>handleRequest_answers\<close> shows that every run of the handler sends the
    chunks of the frame decided on and counts it once.
  \<^item> \<open>Http_Proxy\<close>, \<open>Proxy_Replies\<close>: \<^verbatim>\<open>http_proxy.go\<close>, \<^verbatim>\<open>id.go\<close>. \<open>ServeHTTP\<close> in stages; \<open>proxy_inv\<close>
    relates the cache and the frames sent to the requests received so far, over any sequence of
    requests (\<open>proxy_state\<close>); the replies clients see.
  \<^item> \<open>Interleaving\<close>: reachable states of a step relation and the locale \<open>invariant\<close>, which the next two
    theories interpret or instantiate for each of their invariants.
  \<^item> \<open>Exit_Concurrent\<close>: the goroutines that \<^verbatim>\<open>Run\<close> starts, as the step relation \<open>conc_step\<close> on the shared
    \<open>HTTPExecutor\<close>. Invariants for numbering, order, counters and outbound requests; a well-founded
    order on the stages of a goroutine; \<open>exit_Run\<close> is one of the interleavings.
  \<^item> \<open>Proxy_Concurrent\<close>: the handlers of the HTTP server as the step relation \<open>pconc_step\<close> on the shared
    \<open>HTTPProxy\<close>, and \<^verbatim>\<open>Serve\<close> as \<open>serve_step\<close>. \<open>proxy_inv\<close> of \<open>Http_Proxy\<close> holds in every interleaving,
    and each goroutine's stage satisfies \<open>stage_ok\<close>; \<open>proxy_state\<close> is one of the interleavings.
  \<^item> \<open>Startup\<close>: \<^verbatim>\<open>main.go\<close>, \<^verbatim>\<open>load.go\<close>: the start of both processes from a configuration file.
  \<^item> \<open>Relay_Path\<close>: both ends together, from the client's request to the reply it receives.
  \<^item> \<open>Self_Test\<close>: \<^verbatim>\<open>runSelftest\<close> and \<^verbatim>\<open>waitForListener\<close>, whose three requests run through the models of
    both ends.
  \<^item> This theory: the properties that span both ends.

  Parameters of the model. Code outside the repository is an argument: relaykit (chunking,
  encryption, reassembly, the session) as \<open>xe_chunk\<close>, \<open>xe_encode\<close>, \<open>xe_decode\<close>, \<open>reasm\<close>, \<open>yw_relay\<close>;
  safedialer as \<open>pe_IsPrivateIP\<close>; YAML. The JSON codec, \<^verbatim>\<open>http.ParseTime\<close>, the Unicode tables outside
  ASCII, the network, the clock and the random source are arguments too. The laws used of them are the
  named predicates \<open>relay_delivers\<close>, \<open>request_survives\<close>, \<open>response_survives\<close>, \<open>decoder_wf\<close>,
  \<open>request_wf\<close> and \<open>header_wf\<close>; each property that uses one has a witness on concrete functions.

  Bounds. No fuel is used: loops are structural recursions, the eviction loop has a termination
  proof, the wait for the listener is a partial function proved to return, and goroutines are
  relations. Counters, durations and read limits wrap at 64 bits, sequence numbers at 32.

  Sequential and concurrent. \<open>Exit_Executor\<close> and \<open>Http_Proxy\<close> handle requests one after the other, in
  the order of the code. In the program the handlers run concurrently; the two theories on
  interleavings split them into their actions on what they share: the cache, whose mutex makes
  \<open>Get\<close> and \<open>Put\<close> atomic, the atomic counters, the sequence number, the limiter, the session. The Go
  memory model, under which plain fields set before \<^verbatim>\<open>Serve\<close> and \<^verbatim>\<open>Run\<close> are constant, is assumed.

  Not modelled. The internals of \<^verbatim>\<open>net/http\<close> behind \<^verbatim>\<open>Serve\<close> and \<^verbatim>\<open>Shutdown\<close>, and what relaykit's session
  does with its pending requests, beyond the outcome of each call. Redirects that \<^verbatim>\<open>http.Client\<close>
  follows are part of the outcome of one call. Texts of nested errors in log records and the usage
  text are left out.
\<close>

section \<open>The two ends together\<close>



section \<open>A concrete pair\<close>







end
